theory Spec2Isabelle
  imports Complex_Main
begin

section \<open>JavaScript numbers\<close>

text \<open>
  The engine computes on JavaScript numbers. A finite double is modelled by the real it
  denotes (rounding, overflow and the sign of zero are not modelled); the three
  non-finite values are kept, because the code tests for them with \<open>isFinite\<close> and
  because a read outside an array yields \<open>undefined\<close>, which every arithmetic and
  comparison operator used here treats as \<open>NaN\<close>.
\<close>

datatype number = Fin real | PosInf | NegInf | NaN

fun isFinite :: "number \<Rightarrow> bool" where
  "isFinite (Fin _) = True"
| "isFinite _ = False"

text \<open>\<open>a < b\<close> and \<open>a <= b\<close>; any comparison with \<open>NaN\<close> is false.\<close>

fun jlt :: "number \<Rightarrow> number \<Rightarrow> bool" where
  "jlt (Fin a) (Fin b) = (a < b)"
| "jlt (Fin _) PosInf = True"
| "jlt NegInf (Fin _) = True"
| "jlt NegInf PosInf = True"
| "jlt _ _ = False"

fun jle :: "number \<Rightarrow> number \<Rightarrow> bool" where
  "jle (Fin a) (Fin b) = (a \<le> b)"
| "jle (Fin _) PosInf = True"
| "jle NegInf (Fin _) = True"
| "jle NegInf PosInf = True"
| "jle PosInf PosInf = True"
| "jle NegInf NegInf = True"
| "jle _ _ = False"

fun jneg :: "number \<Rightarrow> number" where
  "jneg (Fin a) = Fin (- a)"
| "jneg PosInf = NegInf"
| "jneg NegInf = PosInf"
| "jneg NaN = NaN"

fun jadd :: "number \<Rightarrow> number \<Rightarrow> number" where
  "jadd (Fin a) (Fin b) = Fin (a + b)"
| "jadd NaN _ = NaN"
| "jadd _ NaN = NaN"
| "jadd PosInf NegInf = NaN"
| "jadd NegInf PosInf = NaN"
| "jadd PosInf _ = PosInf"
| "jadd NegInf _ = NegInf"
| "jadd _ PosInf = PosInf"
| "jadd _ NegInf = NegInf"

definition jsub :: "number \<Rightarrow> number \<Rightarrow> number" where
  "jsub a b = jadd a (jneg b)"

text \<open>The sign of an infinite product or quotient: \<open>flip\<close> when the finite factor is negative.\<close>

fun signed_inf :: "bool \<Rightarrow> number" where
  "signed_inf True = PosInf"
| "signed_inf False = NegInf"

fun jmul :: "number \<Rightarrow> number \<Rightarrow> number" where
  "jmul (Fin a) (Fin b) = Fin (a * b)"
| "jmul NaN _ = NaN"
| "jmul _ NaN = NaN"
| "jmul PosInf (Fin b) = (if b = 0 then NaN else signed_inf (0 < b))"
| "jmul NegInf (Fin b) = (if b = 0 then NaN else signed_inf (b < 0))"
| "jmul (Fin a) PosInf = (if a = 0 then NaN else signed_inf (0 < a))"
| "jmul (Fin a) NegInf = (if a = 0 then NaN else signed_inf (a < 0))"
| "jmul PosInf PosInf = PosInf"
| "jmul NegInf NegInf = PosInf"
| "jmul PosInf NegInf = NegInf"
| "jmul NegInf PosInf = NegInf"

text \<open>Division; a zero divisor is taken as \<open>+0\<close>.\<close>

fun jdiv :: "number \<Rightarrow> number \<Rightarrow> number" where
  "jdiv (Fin a) (Fin b) =
     (if b \<noteq> 0 then Fin (a / b) else if a = 0 then NaN else signed_inf (0 < a))"
| "jdiv NaN _ = NaN"
| "jdiv _ NaN = NaN"
| "jdiv (Fin _) _ = Fin 0"
| "jdiv PosInf (Fin b) = signed_inf (0 \<le> b)"
| "jdiv NegInf (Fin b) = signed_inf (b < 0)"
| "jdiv _ _ = NaN"

fun jsqrt :: "number \<Rightarrow> number" where
  "jsqrt (Fin a) = (if 0 \<le> a then Fin (sqrt a) else NaN)"
| "jsqrt PosInf = PosInf"
| "jsqrt _ = NaN"

fun jabs :: "number \<Rightarrow> number" where
  "jabs (Fin a) = Fin \<bar>a\<bar>"
| "jabs NaN = NaN"
| "jabs _ = PosInf"

fun jfloor :: "number \<Rightarrow> number" where
  "jfloor (Fin a) = Fin (of_int \<lfloor>a\<rfloor>)"
| "jfloor a = a"

text \<open>\<open>Math.min\<close> and \<open>Math.max\<close> of two arguments: \<open>NaN\<close> if either is.\<close>

definition jmin :: "number \<Rightarrow> number \<Rightarrow> number" where
  "jmin a b = (if a = NaN \<or> b = NaN then NaN else if jle a b then a else b)"

definition jmax :: "number \<Rightarrow> number \<Rightarrow> number" where
  "jmax a b = (if a = NaN \<or> b = NaN then NaN else if jle a b then b else a)"

text \<open>\<open>a || b\<close> on numbers: \<open>0\<close> and \<open>NaN\<close> are falsy.\<close>

definition jor :: "number \<Rightarrow> number \<Rightarrow> number" where
  "jor a b = (if a = NaN \<or> a = Fin 0 then b else a)"

text \<open>
  An array read \<open>a[i]\<close>. Outside the array JavaScript yields \<open>undefined\<close>; in every place
  below the value is then only used in arithmetic or in a comparison, where it acts as
  \<open>NaN\<close>. A write outside a typed array is ignored, which is what \<open>list_update\<close> does.
\<close>

definition rd :: "number list \<Rightarrow> int \<Rightarrow> number" where
  "rd a i = (if 0 \<le> i \<and> i < int (length a) then a ! nat i else NaN)"

definition rdNum :: "number list \<Rightarrow> number \<Rightarrow> number" where
  "rdNum a j = (case j of Fin r \<Rightarrow> (if r = of_int \<lfloor>r\<rfloor> then rd a \<lfloor>r\<rfloor> else NaN) | _ \<Rightarrow> NaN)"

text \<open>The remainder operator \<open>%\<close> on integers: the result takes the sign of the dividend.\<close>

definition jrem :: "int \<Rightarrow> int \<Rightarrow> int" where
  "jrem a b = sgn a * (\<bar>a\<bar> mod \<bar>b\<bar>)"

section \<open>Music utilities (musicUtils.ts)\<close>

definition midiToFrequency :: "int \<Rightarrow> real" where
  "midiToFrequency midiNote = 440 * 2 powr ((of_int midiNote - 69) / 12)"

text \<open>\<open>Math.round\<close> rounds half up.\<close>

definition frequencyToMidi :: "real \<Rightarrow> int" where
  "frequencyToMidi f = \<lfloor>12 * log 2 (f / 440) + 69 + 1 / 2\<rfloor>"

definition noteNames :: "string list" where
  "noteNames = [''C'', ''C#'', ''D'', ''D#'', ''E'', ''F'', ''F#'', ''G'', ''G#'', ''A'', ''A#'', ''B'']"

text \<open>\<open>noteNames[midiNote % 12]\<close> is \<open>undefined\<close> (here \<open>None\<close>) for a negative remainder.\<close>

definition getMidiNoteNameOnly :: "int \<Rightarrow> string option" where
  "getMidiNoteNameOnly midiNote =
     (let noteIndex = jrem midiNote 12
      in if 0 \<le> noteIndex then Some (noteNames ! nat noteIndex) else None)"

text \<open>The template string of \<open>getMidiNoteName\<close> is kept as its two parts, name and octave.\<close>

definition getMidiNoteName :: "int \<Rightarrow> string option \<times> int" where
  "getMidiNoteName midiNote = (getMidiNoteNameOnly midiNote, \<lfloor>of_int midiNote / (12 :: real)\<rfloor> - 1)"

definition isOctaveEquivalent :: "int \<Rightarrow> int \<Rightarrow> bool" where
  "isOctaveEquivalent midi1 midi2 = (jrem midi1 12 = jrem midi2 12)"

text \<open>
  A reference note. The fields \<open>velocity\<close> and \<open>lyric\<close> are copied unchanged by every
  operation and are left out. \<open>note_id\<close> is the source's \<open>id\<close>.
\<close>

record Note =
  note_id :: string
  time :: real
  duration :: real
  pitch :: int
  name :: "string option"
  frequency :: real

definition transposeNote :: "Note \<Rightarrow> int \<Rightarrow> Note" where
  "transposeNote note semitones =
     (let transposedPitch = pitch note + semitones
      in note\<lparr>pitch := transposedPitch,
              frequency := midiToFrequency transposedPitch,
              name := getMidiNoteNameOnly transposedPitch\<rparr>)"

section \<open>Target note tracker (the cursor loops of the analysis tick)\<close>

datatype js_error = TypeError

text \<open>\<open>while (idx < notes.length && t > notes[idx].time + notes[idx].duration) idx++\<close>\<close>

function advance :: "Note list \<Rightarrow> real \<Rightarrow> nat \<Rightarrow> nat" where
  "advance notes t idx =
     (if idx < length notes \<and> t > time (notes ! idx) + duration (notes ! idx)
      then advance notes t (idx + 1) else idx)"
  by pat_completeness auto
termination
  by (relation "measure (\<lambda>(notes, t, idx). length notes - idx)") auto

declare advance.simps [simp del]

text \<open>
  \<open>while (idx > 0 && t < notes[idx].time) idx--\<close>. There is no test against
  \<open>notes.length\<close> here: with \<open>idx = notes.length > 0\<close> the element is \<open>undefined\<close> and
  reading its \<open>time\<close> throws a TypeError.
\<close>

fun retreat :: "Note list \<Rightarrow> real \<Rightarrow> nat \<Rightarrow> js_error + nat" where
  "retreat notes t 0 = Inr 0"
| "retreat notes t (Suc i) =
     (if Suc i < length notes
      then (if t < time (notes ! Suc i) then retreat notes t i else Inr (Suc i))
      else Inl TypeError)"

text \<open>
  The lookup of one tick, from the stored cursor \<open>idx0\<close>: the new cursor and the target
  note, or the exception. The cursor is stored back only when no exception was thrown.
\<close>

definition trackTarget :: "Note list \<Rightarrow> int \<Rightarrow> real \<Rightarrow> nat \<Rightarrow> js_error + (nat \<times> Note option)" where
  "trackTarget notes transpositionSemitones t idx0 =
     (case retreat notes t (advance notes t idx0) of
        Inl e \<Rightarrow> Inl e
      | Inr idx \<Rightarrow>
          let candidate = (if idx < length notes then Some (notes ! idx) else None);
              inNote = (case candidate of
                          None \<Rightarrow> False
                        | Some c \<Rightarrow> t \<ge> time c \<and> t \<le> time c + duration c);
              targetNote = (if inNote
                            then map_option (\<lambda>c. transposeNote c transpositionSemitones) candidate
                            else None)
          in Inr (idx, targetNote))"

text \<open>The two notes of the specification's tracker example.\<close>

definition exampleNotes :: "Note list" where
  "exampleNotes =
     [\<lparr>note_id = ''a'', time = 0, duration = 1, pitch = 60, name = Some ''C'',
       frequency = midiToFrequency 60\<rparr>,
      \<lparr>note_id = ''b'', time = 1, duration = 1, pitch = 62, name = Some ''D'',
       frequency = midiToFrequency 62\<rparr>]"

definition targetId :: "js_error + (nat \<times> Note option) \<Rightarrow> js_error + string option" where
  "targetId r = map_sum (\<lambda>e. e) (\<lambda>(idx, n). map_option note_id n) r"

section \<open>Deviation and classification (MicrophoneAnalyzer)\<close>

text \<open>
  \<open>centsToNearestOctave\<close> is the one place where the range of doubles decides
  whether a call returns, so its quotient is taken to that range: a quotient of finite
  numbers of magnitude at least \<open>2^1024 - 2^970\<close> rounds to an infinity and one of
  magnitude at most \<open>2^-1075\<close> rounds to zero. The rounding of the mantissa is not
  modelled, and \<open>Math.log2\<close> and the product with 1200 are taken exact.
\<close>

definition overflowLimit :: real where
  "overflowLimit = 2 ^ 1024 - 2 ^ 970"

definition underflowLimit :: real where
  "underflowLimit = 1 / 2 ^ 1075"

definition toRange :: "real \<Rightarrow> number" where
  "toRange r =
     (if overflowLimit \<le> r then PosInf
      else if r \<le> - overflowLimit then NegInf
      else if \<bar>r\<bar> \<le> underflowLimit then Fin 0
      else Fin r)"

fun divInRange :: "number \<Rightarrow> number \<Rightarrow> number" where
  "divInRange (Fin a) (Fin b) = (if b = 0 then jdiv (Fin a) (Fin b) else toRange (a / b))"
| "divInRange a b = jdiv a b"

text \<open>\<open>Math.log2\<close>: \<open>-Infinity\<close> at zero, \<open>Infinity\<close> at \<open>Infinity\<close>, \<open>NaN\<close> below zero.\<close>

fun jlog2 :: "number \<Rightarrow> number" where
  "jlog2 (Fin a) = (if 0 < a then Fin (log 2 a) else if a = 0 then NegInf else NaN)"
| "jlog2 PosInf = PosInf"
| "jlog2 _ = NaN"

text \<open>
  The two wrapping loops, \<open>while (cents > 600) cents -= 1200\<close> and
  \<open>while (cents < -600) cents += 1200\<close>. A loop that does not end has the value \<open>None\<close>:
  subtracting 1200 from \<open>Infinity\<close> leaves \<open>Infinity\<close>.
\<close>

partial_function (option) wrapDown :: "number \<Rightarrow> number option" where
  "wrapDown cents =
     (if jlt (Fin 600) cents then wrapDown (jsub cents (Fin 1200)) else Some cents)"

partial_function (option) wrapUp :: "number \<Rightarrow> number option" where
  "wrapUp cents =
     (if jlt cents (Fin (- 600)) then wrapUp (jadd cents (Fin 1200)) else Some cents)"

definition wrapCents :: "number \<Rightarrow> number option" where
  "wrapCents cents = Option.bind (wrapDown cents) wrapUp"

text \<open>\<open>centsToNearestOctave\<close>; \<open>None\<close> when the call does not return.\<close>

definition centsToNearestOctave :: "number \<Rightarrow> number \<Rightarrow> number option" where
  "centsToNearestOctave targetHz detectedHz =
     (if \<not> isFinite targetHz \<or> \<not> isFinite detectedHz \<or>
         jle targetHz (Fin 0) \<or> jle detectedHz (Fin 0)
      then Some (Fin 0)
      else wrapCents (jmul (Fin 1200) (jlog2 (divInRange detectedHz targetHz))))"

text \<open>
  The result of the detector. \<open>p_frequency\<close> and \<open>p_pitch\<close> are the source's
  \<open>frequency\<close> and \<open>pitch\<close>: the detector returns a result only for a finite frequency
  and rounds the pitch to an integer, so the tick's tests
  \<open>isFinite(pitchResult.frequency) && isFinite(pitchResult.pitch)\<close> hold for every result.
\<close>

record PitchDetectionResult =
  p_frequency :: real
  p_pitch :: int
  noteName :: "string option \<times> int"
  noteNameOnly :: "string option"
  confidence :: number
  clarity :: number
  timestamp :: int

record VoiceAnalysis =
  currentPitch :: "PitchDetectionResult option"
  targetNote :: "Note option"
  accuracy :: real
  deviation :: real
  isOnPitch :: bool
  octaveAdjusted :: bool

text \<open>\<open>Math.max(0, 1 - Math.abs(deviation) / 1200)\<close>\<close>

definition accuracyScore :: "real \<Rightarrow> real" where
  "accuracyScore dev = max 0 (1 - \<bar>dev\<bar> / 1200)"

text \<open>
  The analysis record of a tick on which a pitch was detected. The deviation is the
  value that \<open>centsToNearestOctave\<close> returns. Were that call not to return, the tick
  would not either; this total model of the tick leaves that case out (the deviation is
  0 there). It needs the quotient of the detected frequency, which the detector keeps
  within [80, 2000], and the frequency of the note to leave the range of doubles.
\<close>

definition buildAnalysis :: "Note option \<Rightarrow> PitchDetectionResult \<Rightarrow> int \<Rightarrow> VoiceAnalysis" where
  "buildAnalysis target pitchResult now =
     (let current = Some (pitchResult\<lparr>timestamp := now\<rparr>)
      in case target of
           None \<Rightarrow>
             \<lparr>currentPitch = current, targetNote = None, accuracy = 0, deviation = 0,
              isOnPitch = False, octaveAdjusted = False\<rparr>
         | Some tn \<Rightarrow>
             let dev = (case centsToNearestOctave (Fin (frequency tn))
                                (Fin (p_frequency pitchResult)) of
                          Some (Fin c) \<Rightarrow> c
                        | _ \<Rightarrow> 0);
                 octAdj = isOctaveEquivalent (pitch tn) (p_pitch pitchResult);
                 onPitch = (\<bar>dev\<bar> \<le> 50 \<or> octAdj)
             in \<lparr>currentPitch = current, targetNote = Some tn, accuracy = accuracyScore dev,
                 deviation = dev, isOnPitch = onPitch, octaveAdjusted = octAdj\<rparr>)"

definition neutralAnalysis :: VoiceAnalysis where
  "neutralAnalysis =
     \<lparr>currentPitch = None, targetNote = None, accuracy = 0, deviation = 0,
      isOnPitch = False, octaveAdjusted = False\<rparr>"

section \<open>The analysis tick\<close>

datatype VoiceHistory = VoiceHistory (h_time: real) (h_pitch: int) (h_isOnPitch: bool)

text \<open>The refs of the component that the tick reads and writes.\<close>

record AnalyzerState =
  currentNoteIndex :: nat
  lastHitNoteId :: "string option"
  lastUIUpdateTs :: int
  historyBuffer :: "VoiceHistory list"
  lastHistoryFlushTs :: int

definition initialState :: AnalyzerState where
  "initialState =
     \<lparr>currentNoteIndex = 0, lastHitNoteId = None, lastUIUpdateTs = 0,
      historyBuffer = [], lastHistoryFlushTs = 0\<rparr>"

text \<open>
  What one tick receives from outside: \<open>Date.now()\<close>, the detector's result and the
  playback time \<open>currentTimeRef.current\<close> (a finite number of seconds).
\<close>

record TickInput =
  now :: int
  pitchResult :: "PitchDetectionResult option"
  currentTime :: real

text \<open>The callbacks a tick invokes, in the order of the calls.\<close>

datatype event = NoteHit string | AnalysisUpdate VoiceAnalysis | HistoryUpdate VoiceHistory

definition UI_UPDATE_MS :: int where "UI_UPDATE_MS = 66"
definition HISTORY_FLUSH_MS :: int where "HISTORY_FLUSH_MS = 100"

text \<open>
  The guarded note hit. With a target: a hit when on pitch, the id is non-empty (truthy)
  and differs from the held id. Without a target: the guard is reset.
\<close>

definition noteHitStep :: "string option \<Rightarrow> VoiceAnalysis \<Rightarrow> string option \<times> event list" where
  "noteHitStep lastHit analysis =
     (case targetNote analysis of
        Some tn \<Rightarrow>
          if isOnPitch analysis \<and> note_id tn \<noteq> [] \<and> lastHit \<noteq> Some (note_id tn)
          then (Some (note_id tn), [NoteHit (note_id tn)])
          else (lastHit, [])
      | None \<Rightarrow> (None, []))"

text \<open>\<open>if (now - lastUIUpdateTsRef.current >= UI_UPDATE_MS) { ... }\<close>\<close>

definition uiStep :: "int \<Rightarrow> int \<Rightarrow> VoiceAnalysis \<Rightarrow> int \<times> event list" where
  "uiStep lastTs nowTs analysis =
     (if nowTs - lastTs \<ge> UI_UPDATE_MS then (nowTs, [AnalysisUpdate analysis]) else (lastTs, []))"

text \<open>The flush of the history buffer, after the point of this tick was pushed.\<close>

definition flushStep :: "int \<Rightarrow> int \<Rightarrow> VoiceHistory list \<Rightarrow> int \<times> VoiceHistory list \<times> event list" where
  "flushStep lastTs nowTs buf =
     (if nowTs - lastTs \<ge> HISTORY_FLUSH_MS
      then (nowTs, (if buf \<noteq> [] then [] else buf), map HistoryUpdate buf)
      else (lastTs, buf, []))"

text \<open>
  One run of the interval callback. An exception of the lookup is caught by the
  \<open>try\<close>/\<open>catch\<close> around the body; it is thrown before anything is stored or emitted.
  The playback time and the detected pitch are finite by their types, so the test
  \<open>isFinite(t) && isFinite(pitchResult.pitch)\<close> before the push to the history buffer
  holds on every tick with a detected pitch.
\<close>

definition analysisTick ::
  "Note list \<Rightarrow> int \<Rightarrow> AnalyzerState \<Rightarrow> TickInput \<Rightarrow> AnalyzerState \<times> event list" where
  "analysisTick notes transpositionSemitones s inp =
     (case trackTarget notes transpositionSemitones (currentTime inp) (currentNoteIndex s) of
        Inl e \<Rightarrow> (s, [])
      | Inr (idx, target) \<Rightarrow>
          (case pitchResult inp of
             Some p \<Rightarrow>
               let analysis = buildAnalysis target p (now inp);
                   (lastHit, hitEvents) = noteHitStep (lastHitNoteId s) analysis;
                   (uiTs, uiEvents) = uiStep (lastUIUpdateTs s) (now inp) analysis;
                   pushed = historyBuffer s @
                     [VoiceHistory (currentTime inp) (p_pitch p) (isOnPitch analysis)];
                   (flushTs, buf, flushEvents) = flushStep (lastHistoryFlushTs s) (now inp) pushed
               in (\<lparr>currentNoteIndex = idx, lastHitNoteId = lastHit, lastUIUpdateTs = uiTs,
                    historyBuffer = buf, lastHistoryFlushTs = flushTs\<rparr>,
                   hitEvents @ uiEvents @ flushEvents)
           | None \<Rightarrow>
               let (uiTs, uiEvents) = uiStep (lastUIUpdateTs s) (now inp) neutralAnalysis
               in (s\<lparr>currentNoteIndex := idx, lastUIUpdateTs := uiTs\<rparr>, uiEvents)))"

text \<open>A sequence of ticks; the trace pairs each tick's clock value with its events.\<close>

fun runTicks ::
  "Note list \<Rightarrow> int \<Rightarrow> AnalyzerState \<Rightarrow> TickInput list \<Rightarrow> AnalyzerState \<times> (int \<times> event list) list" where
  "runTicks notes semis s [] = (s, [])"
| "runTicks notes semis s (inp # inps) =
     (let (s1, evs) = analysisTick notes semis s inp;
          (s2, trace) = runTicks notes semis s1 inps
      in (s2, (now inp, evs) # trace))"

text \<open>Observations on events and traces.\<close>

fun isAnalysisUpdate :: "event \<Rightarrow> bool" where
  "isAnalysisUpdate (AnalysisUpdate _) = True"
| "isAnalysisUpdate _ = False"

fun historyPoints :: "event list \<Rightarrow> VoiceHistory list" where
  "historyPoints [] = []"
| "historyPoints (HistoryUpdate h # es) = h # historyPoints es"
| "historyPoints (_ # es) = historyPoints es"

fun noteHits :: "event list \<Rightarrow> string list" where
  "noteHits [] = []"
| "noteHits (NoteHit n # es) = n # noteHits es"
| "noteHits (_ # es) = noteHits es"

definition snapshotTimes :: "(int \<times> event list) list \<Rightarrow> int list" where
  "snapshotTimes trace = map fst (filter (\<lambda>(ts, evs). list_ex isAnalysisUpdate evs) trace)"

definition flushTimes :: "(int \<times> event list) list \<Rightarrow> int list" where
  "flushTimes trace = map fst (filter (\<lambda>(ts, evs). historyPoints evs \<noteq> []) trace)"

definition traceHits :: "(int \<times> event list) list \<Rightarrow> string list" where
  "traceHits trace = concat (map (\<lambda>(ts, evs). noteHits evs) trace)"

definition traceHistory :: "(int \<times> event list) list \<Rightarrow> VoiceHistory list" where
  "traceHistory trace = concat (map (\<lambda>(ts, evs). historyPoints evs) trace)"

text \<open>The id of the active target of a tick taken in state \<open>s\<close>, if the lookup completes.\<close>

definition tickTargetId :: "Note list \<Rightarrow> int \<Rightarrow> AnalyzerState \<Rightarrow> TickInput \<Rightarrow> string option" where
  "tickTargetId notes semis s inp =
     (case trackTarget notes semis (currentTime inp) (currentNoteIndex s) of
        Inl e \<Rightarrow> None
      | Inr (idx, target) \<Rightarrow> map_option note_id target)"

text \<open>Whether the tick detects a pitch and classifies it as on pitch against its target.\<close>

definition tickOnPitch :: "Note list \<Rightarrow> int \<Rightarrow> AnalyzerState \<Rightarrow> TickInput \<Rightarrow> bool" where
  "tickOnPitch notes semis s inp =
     (case trackTarget notes semis (currentTime inp) (currentNoteIndex s) of
        Inl e \<Rightarrow> False
      | Inr (idx, target) \<Rightarrow>
          (case pitchResult inp of
             Some p \<Rightarrow> isOnPitch (buildAnalysis target p (now inp))
           | None \<Rightarrow> False))"

text \<open>The point a tick pushes to the history buffer, if any.\<close>

definition tickPushed :: "Note list \<Rightarrow> int \<Rightarrow> AnalyzerState \<Rightarrow> TickInput \<Rightarrow> VoiceHistory list" where
  "tickPushed notes semis s inp =
     (case trackTarget notes semis (currentTime inp) (currentNoteIndex s) of
        Inl e \<Rightarrow> []
      | Inr (idx, target) \<Rightarrow>
          (case pitchResult inp of
             Some p \<Rightarrow> [VoiceHistory (currentTime inp) (p_pitch p)
                          (isOnPitch (buildAnalysis target p (now inp)))]
           | None \<Rightarrow> []))"

text \<open>Every tick of a run has the active target \<open>n\<close>; some tick of a run is on pitch;
  the points pushed during a run.\<close>

fun sameTargetRun :: "Note list \<Rightarrow> int \<Rightarrow> string \<Rightarrow> AnalyzerState \<Rightarrow> TickInput list \<Rightarrow> bool" where
  "sameTargetRun notes semis n s [] = True"
| "sameTargetRun notes semis n s (inp # inps) =
     (tickTargetId notes semis s inp = Some n \<and>
      sameTargetRun notes semis n (fst (analysisTick notes semis s inp)) inps)"

fun someOnPitch :: "Note list \<Rightarrow> int \<Rightarrow> AnalyzerState \<Rightarrow> TickInput list \<Rightarrow> bool" where
  "someOnPitch notes semis s [] = False"
| "someOnPitch notes semis s (inp # inps) =
     (tickOnPitch notes semis s inp \<or>
      someOnPitch notes semis (fst (analysisTick notes semis s inp)) inps)"

fun runPushed :: "Note list \<Rightarrow> int \<Rightarrow> AnalyzerState \<Rightarrow> TickInput list \<Rightarrow> VoiceHistory list" where
  "runPushed notes semis s [] = []"
| "runPushed notes semis s (inp # inps) =
     tickPushed notes semis s inp @
     runPushed notes semis (fst (analysisTick notes semis s inp)) inps"

section \<open>The pitch detector (pitchDetection.ts)\<close>

definition minFreq :: real where "minFreq = 80"
definition maxFreq :: real where "maxFreq = 2000"
definition yinThreshold :: real where "yinThreshold = 15 / 100"
definition vadRmsThreshold :: real where "vadRmsThreshold = 1 / 100"

definition computeRMS :: "number list \<Rightarrow> number" where
  "computeRMS buf =
     jsqrt (jdiv (fold (\<lambda>v sum. jadd sum (jmul v v)) buf (Fin 0)) (Fin (real (length buf))))"

subsection \<open>YIN: difference function and its normalisation\<close>

text \<open>The inner loop \<open>for (i = 0, lim = N - tau; i < lim; i++)\<close> of the difference function.\<close>

definition differenceAt :: "number list \<Rightarrow> int \<Rightarrow> number" where
  "differenceAt x tau =
     fold (\<lambda>i sum. let diff = jsub (rd x i) (rd x (i + tau)) in jadd sum (jmul diff diff))
          [0..int (length x) - tau - 1] (Fin 0)"

text \<open>Step 1: \<open>yin\<close> is zeroed up to \<open>maxTauClamped\<close>, then filled with the raw differences.\<close>

definition differenceFunction :: "number list \<Rightarrow> number list \<Rightarrow> int \<Rightarrow> number list" where
  "differenceFunction x yin maxTauClamped =
     fold (\<lambda>tau y. y[nat tau := differenceAt x tau]) [1..maxTauClamped]
          (fold (\<lambda>tau y. y[nat tau := Fin 0]) [0..maxTauClamped] yin)"

text \<open>Step 2: the cumulative mean normalised difference, computed in place.\<close>

definition cmndStep :: "int \<Rightarrow> number \<times> number list \<Rightarrow> number \<times> number list" where
  "cmndStep tau st =
     (let runningSum = jadd (fst st) (rd (snd st) tau)
      in (runningSum,
          (snd st)[nat tau := jdiv (jmul (rd (snd st) tau) (Fin (of_int tau)))
                                   (jor runningSum (Fin (1 / 10 ^ 12)))]))"

definition cmnd :: "number list \<Rightarrow> int \<Rightarrow> number list" where
  "cmnd yin maxTauClamped = snd (fold cmndStep [1..maxTauClamped] (Fin 0, yin[0 := Fin 1]))"

subsection \<open>YIN: threshold search\<close>

text \<open>
  Step 3, the loop from \<open>tau\<close> with the running minimum \<open>yinMin\<close>. The result is the pair
  \<open>(tauEstimate, yinMin)\<close> when the loop ends; \<open>tauEstimate = -1\<close> when it ran to the end
  without a \<open>break\<close>.
\<close>

function thresholdLoop :: "number list \<Rightarrow> int \<Rightarrow> int \<Rightarrow> number \<Rightarrow> int \<times> number" where
  "thresholdLoop yin maxTauClamped tau yinMin =
     (if tau \<le> maxTauClamped
      then (if jlt (rd yin tau) (Fin yinThreshold) \<and> jle (rd yin tau) yinMin \<and>
               tau + 1 \<le> maxTauClamped \<and> jle (rd yin tau) (rd yin (tau + 1))
            then (tau, rd yin tau)
            else thresholdLoop yin maxTauClamped (tau + 1)
                   (if jlt (rd yin tau) yinMin then rd yin tau else yinMin))
      else (- 1, yinMin))"
  by pat_completeness auto
termination
  by (relation "measure (\<lambda>(yin, maxTauClamped, tau, yinMin). nat (maxTauClamped + 1 - tau))") auto

declare thresholdLoop.simps [simp del]

text \<open>The fallback loop: the first index of the smallest value, as \<open>(minV, minI)\<close>.\<close>

function globalMinLoop :: "number list \<Rightarrow> int \<Rightarrow> int \<Rightarrow> number \<times> int \<Rightarrow> number \<times> int" where
  "globalMinLoop yin maxTauClamped tau acc =
     (if tau \<le> maxTauClamped
      then globalMinLoop yin maxTauClamped (tau + 1)
             (if jlt (rd yin tau) (fst acc) then (rd yin tau, tau) else acc)
      else acc)"
  by pat_completeness auto
termination
  by (relation "measure (\<lambda>(yin, maxTauClamped, tau, acc). nat (maxTauClamped + 1 - tau))") auto

declare globalMinLoop.simps [simp del]

text \<open>
  Step 3 with its fallback: \<open>(tauEstimate, yinMin)\<close> as they stand before the test
  \<open>tauEstimate <= 0\<close>.
\<close>

definition thresholdSearch :: "number list \<Rightarrow> int \<Rightarrow> int \<Rightarrow> int \<times> number" where
  "thresholdSearch yin minTau maxTauClamped =
     (let found = thresholdLoop yin maxTauClamped (max 2 minTau) (Fin 1)
      in if fst found = - 1
         then (let m = globalMinLoop yin maxTauClamped (max 2 minTau) (PosInf, - 1)
               in (snd m, if fst m = PosInf then Fin 1 else fst m))
         else found)"

subsection \<open>YIN: interpolation, subharmonic check, frequency\<close>

text \<open>Step 4: parabolic interpolation around \<open>tauEstimate\<close>.\<close>

definition parabolic :: "number list \<Rightarrow> int \<Rightarrow> int \<Rightarrow> number" where
  "parabolic yin maxTauClamped tauEstimate =
     (if tauEstimate > 1 \<and> tauEstimate < maxTauClamped
      then (let x0 = rd yin (tauEstimate - 1);
                x1 = rd yin tauEstimate;
                x2 = rd yin (tauEstimate + 1);
                denom = jmul (Fin 2) (jsub (jsub (jmul (Fin 2) x1) x0) x2)
            in if jlt (Fin (1 / 10 ^ 12)) (jabs denom)
               then jadd (Fin (of_int tauEstimate)) (jdiv (jsub x2 x0) denom)
               else Fin (of_int tauEstimate))
      else Fin (of_int tauEstimate))"

text \<open>The linear interpolation of \<open>yin\<close> at a fractional lag, as both halves of the check do it.\<close>

definition interpolate :: "number list \<Rightarrow> int \<Rightarrow> number \<Rightarrow> number" where
  "interpolate yin maxTauClamped tau =
     (let i = jfloor tau;
          frac = jsub tau i;
          yA = rdNum yin i;
          yB = (if jle (jadd i (Fin 1)) (Fin (of_int maxTauClamped))
                then rdNum yin (jadd i (Fin 1)) else yA)
      in jadd yA (jmul (jsub yB yA) frac))"

text \<open>Step 5: the closure \<open>checkAndMaybeReplace\<close>; its result is the new \<open>finalTau\<close>.\<close>

definition checkAndMaybeReplace ::
  "number list \<Rightarrow> int \<Rightarrow> number \<Rightarrow> number \<Rightarrow> real \<Rightarrow> real \<Rightarrow> number" where
  "checkAndMaybeReplace yin maxTauClamped betterTau finalTau mult margin =
     (let tau2 = jmul betterTau (Fin mult)
      in if jle tau2 (Fin (of_int maxTauClamped))
         then (if jlt (jadd (interpolate yin maxTauClamped tau2) (Fin margin))
                      (interpolate yin maxTauClamped betterTau)
               then tau2 else finalTau)
         else finalTau)"

record YinResult =
  freq :: number
  yinAfter :: "number list"
  lastYinMin :: number

text \<open>
  \<open>yinDetectFrequency\<close>. The test \<open>tauEstimate <= 0\<close> of the fallback is made on the
  result of \<open>thresholdSearch\<close>: the loop of step 3 yields \<open>-1\<close> or an index of at least 2.
\<close>

definition yinDetectFrequency ::
  "number list \<Rightarrow> number list \<Rightarrow> int \<Rightarrow> int \<Rightarrow> real \<Rightarrow> YinResult" where
  "yinDetectFrequency x yin minTau maxTau sampleRate =
     (let maxTauClamped = min maxTau (int (length x) - 1);
          y = cmnd (differenceFunction x yin maxTauClamped) maxTauClamped;
          (tauEstimate, yinMin) = thresholdSearch y minTau maxTauClamped
      in if tauEstimate \<le> 0
         then \<lparr>freq = NaN, yinAfter = y, lastYinMin = Fin 1\<rparr>
         else (let betterTau = parabolic y maxTauClamped tauEstimate;
                   finalTau2 = checkAndMaybeReplace y maxTauClamped betterTau betterTau 2 (15 / 1000);
                   finalTau = checkAndMaybeReplace y maxTauClamped betterTau finalTau2 3 (2 / 100)
               in \<lparr>freq = jdiv (Fin sampleRate) finalTau, yinAfter = y, lastYinMin = yinMin\<rparr>))"

subsection \<open>detectPitch\<close>

text \<open>
  The detector object. After \<open>initialize\<close> all of \<open>analyserNode\<close>, \<open>timeData\<close>,
  \<open>yinBuffer\<close> and \<open>audioContext\<close> are set, and \<open>cleanup\<close> clears them together with
  \<open>isInitialized\<close>, so the flag stands for the whole first test of \<open>detectPitch\<close>.
  \<open>sampleRate\<close> is \<open>audioContext.sampleRate\<close>.
\<close>

record PitchDetector =
  isInitialized :: bool
  yinBuffer :: "number list"
  timeBufferSize :: nat
  sampleRate :: real
  storedYinMin :: number

text \<open>
  \<open>detectPitch\<close>, given the window \<open>samples\<close> that the analyser node writes into
  \<open>timeData\<close> and the value \<open>nowTs\<close> of \<open>Date.now()\<close>. No operation of the body throws,
  so the \<open>catch\<close> branch is never taken.
\<close>

definition detectPitch ::
  "PitchDetector \<Rightarrow> number list \<Rightarrow> int \<Rightarrow> PitchDetectionResult option \<times> PitchDetector" where
  "detectPitch d samples nowTs =
     (if \<not> isInitialized d then (None, d)
      else
        let rms = computeRMS samples
        in if \<not> isFinite rms \<or> jlt rms (Fin vadRmsThreshold) then (None, d)
           else
             let rate = (if sampleRate d = 0 then 44100 else sampleRate d);
                 minTau = max 2 \<lfloor>rate / maxFreq\<rfloor>;
                 maxTau = min (int (timeBufferSize d) - 1) \<lfloor>rate / minFreq\<rfloor>;
                 r = yinDetectFrequency samples (yinBuffer d) minTau maxTau rate;
                 d' = d\<lparr>yinBuffer := yinAfter r, storedYinMin := lastYinMin r\<rparr>
             in case freq r of
                  Fin f \<Rightarrow>
                    if f < minFreq \<or> f > maxFreq then (None, d')
                    else
                      let midi = frequencyToMidi f;
                          clar = jmax (Fin 0) (jmin (Fin 1) (jsub (Fin 1) (lastYinMin r)));
                          conf = jmax (Fin 0) (jmin (Fin 1)
                                   (jadd (jmul (Fin (1 / 2)) clar)
                                         (jmul (Fin (1 / 2)) (jmin (Fin 1) (jdiv rms (Fin (1 / 10)))))))
                      in (Some \<lparr>p_frequency = f, p_pitch = midi,
                                 noteName = getMidiNoteName midi,
                                 noteNameOnly = getMidiNoteNameOnly midi,
                                 confidence = conf, clarity = clar, timestamp = nowTs\<rparr>, d')
                | _ \<Rightarrow> (None, d'))"

text \<open>The frequency estimate that \<open>detectPitch\<close> obtains for a window.\<close>

definition estimatedFrequency :: "PitchDetector \<Rightarrow> number list \<Rightarrow> number" where
  "estimatedFrequency d samples =
     (let rate = (if sampleRate d = 0 then 44100 else sampleRate d)
      in freq (yinDetectFrequency samples (yinBuffer d)
                 (max 2 \<lfloor>rate / maxFreq\<rfloor>)
                 (min (int (timeBufferSize d) - 1) \<lfloor>rate / minFreq\<rfloor>) rate))"

text \<open>
  The acceptance test of the threshold search in the words of the specification:
  \<open>CMNDF[tau] < 0.15\<close> and \<open>CMNDF[tau] <= CMNDF[tau + 1]\<close>, read on the array as the
  program reads it (a comparison with an element outside the array is false).
\<close>

definition accepts :: "number list \<Rightarrow> int \<Rightarrow> bool" where
  "accepts yin tau \<longleftrightarrow> jlt (rd yin tau) (Fin yinThreshold) \<and> jle (rd yin tau) (rd yin (tau + 1))"

text \<open>
  \<open>m\<close> is the first lag with the least value among the lags from \<open>start\<close> up to, but
  excluding, \<open>tau\<close>.
\<close>

definition firstMin :: "real list \<Rightarrow> int \<Rightarrow> int \<Rightarrow> int \<Rightarrow> bool" where
  "firstMin c start tau m \<longleftrightarrow>
     start \<le> m \<and> m < tau \<and>
     (\<forall>i. start \<le> i \<and> i < tau \<longrightarrow> c ! nat m \<le> c ! nat i) \<and>
     (\<forall>i. start \<le> i \<and> i < m \<longrightarrow> c ! nat m < c ! nat i)"

text \<open>
  Data for the examples: a normalised difference array with a dip below the threshold,
  one that stays above it, and a detector with a window of four samples at 400 Hz
  sample rate that holds a wave of period two.
\<close>

definition cmndfDip :: "real list" where
  "cmndfDip = [1, 1, 1 / 10, 1 / 20, 7 / 100, 1 / 2]"

definition cmndfFlat :: "real list" where
  "cmndfFlat = [1, 1, 1 / 2, 3 / 10, 2 / 5]"

definition exampleDetector :: PitchDetector where
  "exampleDetector = \<lparr>isInitialized = True, yinBuffer = [Fin 0, Fin 0, Fin 0, Fin 0], timeBufferSize = 4,
          sampleRate = 400, storedYinMin = Fin 1\<rparr>"

definition exampleWindow :: "number list" where "exampleWindow = [Fin 1, Fin (- 1), Fin 1, Fin (- 1)]"

text \<open>Whether the lookup of a tick taken in state \<open>s\<close> completes without an exception.\<close>

definition lookupOk :: "Note list \<Rightarrow> int \<Rightarrow> AnalyzerState \<Rightarrow> TickInput \<Rightarrow> bool" where
  "lookupOk ns semis s inp = (case trackTarget ns semis (currentTime inp) (currentNoteIndex s) of Inl e \<Rightarrow> False | Inr r \<Rightarrow> True)"

text \<open>Whether a tick taken in state \<open>s\<close> passes the test of the history flush.\<close>

definition flushes :: "Note list \<Rightarrow> int \<Rightarrow> AnalyzerState \<Rightarrow> TickInput \<Rightarrow> bool" where
  "flushes ns semis s inp \<longleftrightarrow>
     lookupOk ns semis s inp \<and> pitchResult inp \<noteq> None \<and>
     HISTORY_FLUSH_MS \<le> now inp - lastHistoryFlushTs s"

text \<open>Two clock values are at least \<open>ms\<close> apart.\<close>

definition apart :: "int \<Rightarrow> int \<Rightarrow> int \<Rightarrow> bool" where
  "apart ms a b \<longleftrightarrow> ms \<le> b - a"

text \<open>
  Data for the examples: two notes with a gap between them, a detector result with a
  given pitch and frequency, and a tick input.
\<close>

definition gapNotes :: "Note list" where
  "gapNotes =
     [\<lparr>note_id = ''N1'', time = 1, duration = 1, pitch = 60, name = Some ''C'',
       frequency = midiToFrequency 60\<rparr>,
      \<lparr>note_id = ''N2'', time = 3, duration = 1, pitch = 69, name = Some ''A'',
       frequency = midiToFrequency 69\<rparr>]"

definition sung :: "int \<Rightarrow> real \<Rightarrow> PitchDetectionResult" where
  "sung midi hz =
     \<lparr>p_frequency = hz, p_pitch = midi, noteName = getMidiNoteName midi,
      noteNameOnly = getMidiNoteNameOnly midi, confidence = Fin 1, clarity = Fin 1,
      timestamp = 0\<rparr>"

definition tickAt :: "int \<Rightarrow> real \<Rightarrow> PitchDetectionResult option \<Rightarrow> TickInput" where
  "tickAt ts t p = \<lparr>now = ts, pitchResult = p, currentTime = t\<rparr>"

section \<open>Properties of the tracker\<close>

lemma advance_stop:
  "\<not> (idx < length ns \<and> t > time (ns ! idx) + duration (ns ! idx)) \<Longrightarrow> advance ns t idx = idx"
  by (subst advance.simps) auto

lemma advance_step:
  "idx < length ns \<Longrightarrow> t > time (ns ! idx) + duration (ns ! idx) \<Longrightarrow>
   advance ns t idx = advance ns t (idx + 1)"
  by (subst advance.simps) simp

lemma advance_all_passed:
  "\<forall>n \<in> set ns. t > time n + duration n \<Longrightarrow> length ns \<le> advance ns t idx"
proof (induction ns t idx rule: advance.induct)
  case (1 ns t idx)
  show ?case
  proof (cases "idx < length ns")
    case True
    then have "ns ! idx \<in> set ns" by simp
    with 1(2) have "t > time (ns ! idx) + duration (ns ! idx)" by blast
    with True 1 show ?thesis by (simp add: advance_step)
  next
    case False
    then show ?thesis by (simp add: advance_stop)
  qed
qed

lemma retreat_out_of_bounds: "length ns \<le> i \<Longrightarrow> 0 < i \<Longrightarrow> retreat ns t i = Inl TypeError"
  by (cases i) auto

text \<open>
  C1. On the two example notes (\<open>a\<close> on [0,1], \<open>b\<close> on [1,2]) the tick at \<open>t = 0.5\<close> has
  the active target \<open>a\<close> and the tick at \<open>t = 1.5\<close> has \<open>b\<close>. At \<open>t = 2.5\<close> the advancing
  loop leaves the cursor at \<open>notes.length\<close>, and the retreating loop then reads
  \<open>notes[2].time\<close>: the lookup throws instead of reporting "no active target", from
  either cursor position.
\<close>

theorem tracker_example_ticks:
  "targetId (trackTarget exampleNotes 0 (1 / 2) 0) = Inr (Some ''a'') \<and>
   targetId (trackTarget exampleNotes 0 (3 / 2) 0) = Inr (Some ''b'') \<and>
   targetId (trackTarget exampleNotes 0 (5 / 2) 0) = Inl TypeError \<and>
   targetId (trackTarget exampleNotes 0 (5 / 2) 1) = Inl TypeError"
  by (simp add: trackTarget_def exampleNotes_def advance.simps targetId_def transposeNote_def)

text \<open>
  C10. The lookup does not stay within the bounds of the note array: whenever the
  sequence is non-empty and the playback time lies beyond the end of every note, the
  retreating loop dereferences the element at index \<open>notes.length\<close> and the lookup
  ends with a TypeError, whatever the stored cursor and the transposition are.
\<close>

theorem tracker_reads_past_end:
  assumes "ns \<noteq> []" and "\<forall>n \<in> set ns. t > time n + duration n"
  shows "trackTarget ns semis t idx = Inl TypeError"
proof -
  have "length ns \<le> advance ns t idx" using assms(2) by (rule advance_all_passed)
  moreover have "0 < length ns" using assms(1) by simp
  ultimately have "retreat ns t (advance ns t idx) = Inl TypeError"
    by (intro retreat_out_of_bounds) (cases ns; simp)+
  then show ?thesis by (simp add: trackTarget_def)
qed

text \<open>The same on a single note that ended at \<open>t = 1\<close>, looked up at \<open>t = 3\<close>.\<close>

theorem tracker_reads_past_end_witness:
  "trackTarget [\<lparr>note_id = ''n1'', time = 0, duration = 1, pitch = 69, name = Some ''A'',
                 frequency = 440\<rparr>] 2 3 0 = Inl TypeError"
  using tracker_reads_past_end
    [of "[\<lparr>note_id = ''n1'', time = 0, duration = 1, pitch = 69, name = Some ''A'',
            frequency = 440\<rparr>]" 3 2 0]
  by simp

section \<open>Properties of the classification\<close>






lemma wrapDown_stop: "c \<le> 600 \<Longrightarrow> wrapDown (Fin c) = Some (Fin c)"
  by (subst wrapDown.simps) simp

lemma wrapDown_step: "600 < c \<Longrightarrow> wrapDown (Fin c) = wrapDown (Fin (c - 1200))"
  by (subst wrapDown.simps) (simp add: jsub_def)

lemma wrapUp_stop: "- 600 \<le> c \<Longrightarrow> wrapUp (Fin c) = Some (Fin c)"
  by (subst wrapUp.simps) simp

lemma wrapUp_step: "c < - 600 \<Longrightarrow> wrapUp (Fin c) = wrapUp (Fin (c + 1200))"
  by (subst wrapUp.simps) simp

text \<open>On a finite value the first loop ends, at most at 600 and above -600 if it started there.\<close>

lemma wrapDown_finite:
  "nat \<lceil>c / 1200\<rceil> = n \<Longrightarrow>
   \<exists>c'. wrapDown (Fin c) = Some (Fin c') \<and> c' \<le> 600 \<and> (- 600 < c \<longrightarrow> - 600 < c')"
proof (induction n arbitrary: c)
  case 0
  then have "c \<le> 0" by (simp add: ceiling_le_iff)
  then show ?case by (simp add: wrapDown_stop)
next
  case (Suc n)
  show ?case
  proof (cases "600 < c")
    case True
    have "\<lceil>(c - 1200) / 1200\<rceil> = \<lceil>c / 1200\<rceil> - 1" by (simp add: diff_divide_distrib)
    with Suc.prems have "nat \<lceil>(c - 1200) / 1200\<rceil> = n" by simp
    from Suc.IH [OF this] obtain c' where
      "wrapDown (Fin (c - 1200)) = Some (Fin c')" "c' \<le> 600" "- 600 < c - 1200 \<longrightarrow> - 600 < c'"
      by blast
    with True show ?thesis by (simp add: wrapDown_step)
  next
    case False
    then show ?thesis by (simp add: wrapDown_stop)
  qed
qed

lemma wrapUp_finite:
  "nat \<lceil>- c / 1200\<rceil> = n \<Longrightarrow> c \<le> 600 \<Longrightarrow>
   \<exists>c'. wrapUp (Fin c) = Some (Fin c') \<and> - 600 \<le> c' \<and> c' \<le> 600"
proof (induction n arbitrary: c)
  case 0
  then have "- c \<le> 0" by (simp add: ceiling_le_iff)
  with 0 show ?case by (simp add: wrapUp_stop)
next
  case (Suc n)
  show ?case
  proof (cases "c < - 600")
    case True
    define x where "x = - c / 1200"
    have "- (c + 1200) / 1200 = x - 1" by (simp add: x_def field_simps)
    moreover have "nat \<lceil>x\<rceil> = Suc n" using Suc.prems(1) by (simp only: x_def)
    then have "nat \<lceil>x - 1\<rceil> = n" by simp
    ultimately have "nat \<lceil>- (c + 1200) / 1200\<rceil> = n" by (simp only:)
    moreover have "c + 1200 \<le> 600" using True by simp
    ultimately obtain c' where
      "wrapUp (Fin (c + 1200)) = Some (Fin c')" "- 600 \<le> c'" "c' \<le> 600"
      using Suc.IH by blast
    with True show ?thesis by (simp add: wrapUp_step)
  next
    case False
    with Suc.prems show ?thesis by (simp add: wrapUp_stop)
  qed
qed

lemma wrapCents_finite:
  "\<exists>c'. wrapCents (Fin c) = Some (Fin c') \<and> - 600 \<le> c' \<and> c' \<le> 600"
proof -
  obtain c1 where d: "wrapDown (Fin c) = Some (Fin c1)" "c1 \<le> 600"
    using wrapDown_finite [OF refl, of c] by blast
  obtain c2 where "wrapUp (Fin c1) = Some (Fin c2)" "- 600 \<le> c2" "c2 \<le> 600"
    using wrapUp_finite [OF refl d(2)] by blast
  with d show ?thesis by (simp add: wrapCents_def)
qed

lemma wrapCents_inside: "- 600 \<le> c \<Longrightarrow> c \<le> 600 \<Longrightarrow> wrapCents (Fin c) = Some (Fin c)"
  by (simp add: wrapCents_def wrapDown_stop wrapUp_stop)




lemma two_power_step: "(2::real) ^ 1024 = 2 * 2 ^ 1023" "(2::real) ^ 1023 = 2 * 2 ^ 1022"
proof -
  have "(2::real) ^ 1024 = 2 ^ Suc 1023" "(2::real) ^ 1023 = 2 ^ Suc 1022" by simp_all
  then show "(2::real) ^ 1024 = 2 * 2 ^ 1023" "(2::real) ^ 1023 = 2 * 2 ^ 1022"
    by (simp_all only: power_Suc)
qed

lemma overflowLimit_bounds: "2 ^ 1023 < overflowLimit" "overflowLimit \<le> 2 ^ 1024"
proof -
  have "(2::real) ^ 970 < 2 ^ 1023" by (rule power_strict_increasing) simp_all
  moreover have "(2::real) ^ 1024 = 2 * 2 ^ 1023" by (rule two_power_step)
  ultimately show "2 ^ 1023 < overflowLimit" unfolding overflowLimit_def by linarith
  have "(0::real) \<le> 2 ^ 970" by (rule zero_le_power) simp
  then show "overflowLimit \<le> 2 ^ 1024" unfolding overflowLimit_def by linarith
qed

lemma underflowLimit_bounds: "0 < underflowLimit" "underflowLimit < 1"
proof -
  have "(1::real) < 2 ^ 1075" by (rule one_less_power) simp_all
  then show "0 < underflowLimit" "underflowLimit < 1"
    unfolding underflowLimit_def by (simp_all add: field_simps del: power_numeral)
qed

lemma limits_ordered: "underflowLimit < overflowLimit" "0 < overflowLimit"
proof -
  have "(1::real) \<le> 2 ^ 1023" by (rule one_le_power) simp
  with overflowLimit_bounds(1) have "1 < overflowLimit" by linarith
  with underflowLimit_bounds(2) show "underflowLimit < overflowLimit" "0 < overflowLimit" by linarith+
qed

lemma toRange_inside: "underflowLimit < r \<Longrightarrow> r < overflowLimit \<Longrightarrow> toRange r = Fin r"
proof -
  assume a: "underflowLimit < r" "r < overflowLimit"
  with underflowLimit_bounds(1) have "0 < r" by linarith
  then have "\<bar>r\<bar> = r" by simp
  with a \<open>0 < r\<close> limits_ordered(2) show ?thesis by (simp only: toRange_def) simp
qed


lemma cents_in_range:
  assumes "0 < t" "0 < d" "underflowLimit < d / t" "d / t < overflowLimit"
  shows "centsToNearestOctave (Fin t) (Fin d) = wrapCents (Fin (1200 * log 2 (d / t)))"
proof -
  have q: "0 < d / t" using assms(1,2) by simp
  have "toRange (d / t) = Fin (d / t)" using assms(3,4) by (rule toRange_inside)
  with assms(1,2) q show ?thesis by (simp add: centsToNearestOctave_def)
qed







lemma cents_unison: "0 < f \<Longrightarrow> centsToNearestOctave (Fin f) (Fin f) = Some (Fin 0)"
proof -
  assume f: "0 < f"
  have "underflowLimit < f / f" "f / f < overflowLimit"
    using f underflowLimit_bounds(2) overflowLimit_bounds(1) one_le_power [of "2::real" 1023]
    by simp_all
  from cents_in_range [OF f f this] f show ?thesis by (simp add: wrapCents_inside)
qed


text \<open>A detected frequency within the detector's limits against an audible target.\<close>

lemma deviation_returns:
  assumes d: "80 \<le> d" "d \<le> 2000" and t: "1 / 2 ^ 64 \<le> t" "t \<le> 2 ^ 64"
  shows "\<exists>c. centsToNearestOctave (Fin t) (Fin d) = Some (Fin c) \<and> - 600 \<le> c \<and> c \<le> 600"
proof -
  from t have tpos: "0 < t" by (simp add: less_le_trans [of 0 "1 / 2 ^ 64" t])
  from d have dpos: "0 < d" by simp
  have "d / t \<le> 2000 / (1 / 2 ^ 64)" using d t tpos by (intro frac_le) simp_all
  also have "\<dots> \<le> (2::real) ^ 75" by simp
  also have "\<dots> \<le> (2::real) ^ 1023" by (rule power_increasing) simp_all
  finally have hi: "d / t < overflowLimit" using overflowLimit_bounds(1) by simp
  have "(1::real) / 2 ^ 1075 \<le> 1 / 2 ^ 65"
    by (intro divide_left_mono power_increasing) (simp_all del: power_numeral)
  also have "\<dots> < 80 / 2 ^ 64" by simp
  also have "\<dots> \<le> d / t" using d t tpos by (intro frac_le) simp_all
  finally have lo: "underflowLimit < d / t" by (simp only: underflowLimit_def)
  from cents_in_range [OF tpos dpos lo hi] wrapCents_finite [of "1200 * log 2 (d / t)"]
  show ?thesis by simp
qed




lemma jrem_nonneg: "0 \<le> a \<Longrightarrow> jrem a 12 = a mod 12"
  by (cases "a = 0") (simp_all add: jrem_def)

text \<open>
  C8. The accuracy of a tick with a target is \<open>accuracyScore\<close> of its deviation; for every
  deviation the score is \<open>max(0, 1 - |deviation| / 1200)\<close>, lies in [0,1], is 1 exactly
  for deviation 0 and is 0 exactly when the deviation is at least 1200 in absolute value.
\<close>

theorem accuracyScore_properties:
  "accuracy (buildAnalysis (Some tn) p ts) = accuracyScore (deviation (buildAnalysis (Some tn) p ts)) \<and>
   accuracyScore dev = max 0 (1 - \<bar>dev\<bar> / 1200) \<and>
   0 \<le> accuracyScore dev \<and> accuracyScore dev \<le> 1 \<and>
   (accuracyScore dev = 1 \<longleftrightarrow> dev = 0) \<and>
   (accuracyScore dev = 0 \<longleftrightarrow> \<bar>dev\<bar> \<ge> 1200)"
proof -
  have "accuracy (buildAnalysis (Some tn) p ts) =
        accuracyScore (deviation (buildAnalysis (Some tn) p ts))"
    by (simp add: buildAnalysis_def Let_def)
  moreover have "accuracyScore dev = max 0 (1 - \<bar>dev\<bar> / 1200)"
    by (simp add: accuracyScore_def)
  moreover have "0 \<le> accuracyScore dev \<and> accuracyScore dev \<le> 1"
    by (simp add: accuracyScore_def)
  moreover have "accuracyScore dev = 1 \<longleftrightarrow> dev = 0"
    by (auto simp: accuracyScore_def max_def)
  moreover have "accuracyScore dev = 0 \<longleftrightarrow> \<bar>dev\<bar> \<ge> 1200"
    by (auto simp: accuracyScore_def max_def)
  ultimately show ?thesis by blast
qed

section \<open>Properties of the analysis tick\<close>

lemma noteHits_append: "noteHits (xs @ ys) = noteHits xs @ noteHits ys"
  by (induction xs rule: noteHits.induct) simp_all

lemma historyPoints_append: "historyPoints (xs @ ys) = historyPoints xs @ historyPoints ys"
  by (induction xs rule: historyPoints.induct) simp_all

lemma historyPoints_map: "historyPoints (map HistoryUpdate hs) = hs"
  by (induction hs) simp_all

lemma noteHits_map: "noteHits (map HistoryUpdate hs) = []"
  by (induction hs) simp_all

lemma snapshot_map: "\<not> list_ex isAnalysisUpdate (map HistoryUpdate hs)"
  by (induction hs) simp_all

text \<open>The tick, case by case.\<close>

lemma tick_throw:
  "trackTarget ns semis (currentTime inp) (currentNoteIndex s) = Inl e \<Longrightarrow>
   analysisTick ns semis s inp = (s, [])"
  by (simp add: analysisTick_def)

lemma tick_no_pitch:
  "trackTarget ns semis (currentTime inp) (currentNoteIndex s) = Inr (idx, tgt) \<Longrightarrow>
   pitchResult inp = None \<Longrightarrow>
   analysisTick ns semis s inp =
     (s\<lparr>currentNoteIndex := idx,
        lastUIUpdateTs := (if UI_UPDATE_MS \<le> now inp - lastUIUpdateTs s then now inp else lastUIUpdateTs s)\<rparr>,
      if UI_UPDATE_MS \<le> now inp - lastUIUpdateTs s then [AnalysisUpdate neutralAnalysis] else [])"
  by (simp add: analysisTick_def uiStep_def)

lemma tick_pitch:
  "trackTarget ns semis (currentTime inp) (currentNoteIndex s) = Inr (idx, tgt) \<Longrightarrow>
   pitchResult inp = Some p \<Longrightarrow>
   analysisTick ns semis s inp =
     (\<lparr>currentNoteIndex = idx,
       lastHitNoteId = fst (noteHitStep (lastHitNoteId s) (buildAnalysis tgt p (now inp))),
       lastUIUpdateTs = fst (uiStep (lastUIUpdateTs s) (now inp) (buildAnalysis tgt p (now inp))),
       historyBuffer = fst (snd (flushStep (lastHistoryFlushTs s) (now inp)
          (historyBuffer s @ [VoiceHistory (currentTime inp) (p_pitch p) (isOnPitch (buildAnalysis tgt p (now inp)))]))),
       lastHistoryFlushTs = fst (flushStep (lastHistoryFlushTs s) (now inp)
          (historyBuffer s @ [VoiceHistory (currentTime inp) (p_pitch p) (isOnPitch (buildAnalysis tgt p (now inp)))]))\<rparr>,
      snd (noteHitStep (lastHitNoteId s) (buildAnalysis tgt p (now inp))) @
      snd (uiStep (lastUIUpdateTs s) (now inp) (buildAnalysis tgt p (now inp))) @
      snd (snd (flushStep (lastHistoryFlushTs s) (now inp)
          (historyBuffer s @ [VoiceHistory (currentTime inp) (p_pitch p) (isOnPitch (buildAnalysis tgt p (now inp)))]))))"
  by (simp add: analysisTick_def Let_def split: prod.splits)

lemma list_ex_append_ev: "list_ex isAnalysisUpdate (xs @ ys) = (list_ex isAnalysisUpdate xs \<or> list_ex isAnalysisUpdate ys)"
  by (simp add: list_ex_iff) blast

lemma tick_snapshot:
  "list_ex isAnalysisUpdate (snd (analysisTick ns semis s inp)) \<longleftrightarrow>
     lookupOk ns semis s inp \<and> UI_UPDATE_MS \<le> now inp - lastUIUpdateTs s"
proof (cases "trackTarget ns semis (currentTime inp) (currentNoteIndex s)")
  case (Inl e)
  then show ?thesis by (simp add: tick_throw lookupOk_def)
next
  case (Inr r)
  obtain idx tgt where r: "r = (idx, tgt)" by (cases r)
  show ?thesis
  proof (cases "pitchResult inp")
    case None
    with Inr r show ?thesis by (simp add: tick_no_pitch lookupOk_def)
  next
    case (Some p)
    with Inr r show ?thesis
      by (simp add: tick_pitch lookupOk_def list_ex_append_ev noteHitStep_def uiStep_def
          flushStep_def snapshot_map split: option.splits)
  qed
qed

lemma tick_lastUI:
  "lastUIUpdateTs (fst (analysisTick ns semis s inp)) =
     (if lookupOk ns semis s inp \<and> UI_UPDATE_MS \<le> now inp - lastUIUpdateTs s
      then now inp else lastUIUpdateTs s)"
proof (cases "trackTarget ns semis (currentTime inp) (currentNoteIndex s)")
  case (Inl e)
  then show ?thesis by (simp add: tick_throw lookupOk_def)
next
  case (Inr r)
  obtain idx tgt where r: "r = (idx, tgt)" by (cases r)
  show ?thesis
  proof (cases "pitchResult inp")
    case None
    with Inr r show ?thesis by (simp add: tick_no_pitch lookupOk_def)
  next
    case (Some p)
    with Inr r show ?thesis
      by (simp add: tick_pitch lookupOk_def uiStep_def)
  qed
qed

lemma tick_history:
  "historyPoints (snd (analysisTick ns semis s inp)) =
     (if flushes ns semis s inp then historyBuffer s @ tickPushed ns semis s inp else []) \<and>
   historyBuffer (fst (analysisTick ns semis s inp)) =
     (if flushes ns semis s inp then [] else historyBuffer s @ tickPushed ns semis s inp) \<and>
   lastHistoryFlushTs (fst (analysisTick ns semis s inp)) =
     (if flushes ns semis s inp then now inp else lastHistoryFlushTs s)"
proof (cases "trackTarget ns semis (currentTime inp) (currentNoteIndex s)")
  case (Inl e)
  then show ?thesis by (simp add: tick_throw lookupOk_def flushes_def tickPushed_def)
next
  case (Inr r)
  obtain idx tgt where r: "r = (idx, tgt)" by (cases r)
  show ?thesis
  proof (cases "pitchResult inp")
    case None
    with Inr r show ?thesis
      by (simp add: tick_no_pitch lookupOk_def flushes_def tickPushed_def)
  next
    case (Some p)
    with Inr r show ?thesis
      by (simp add: tick_pitch lookupOk_def flushes_def tickPushed_def historyPoints_append
          noteHitStep_def uiStep_def flushStep_def historyPoints_map split: option.splits)
  qed
qed

lemma tick_pushed_nonempty: "flushes ns semis s inp \<Longrightarrow> tickPushed ns semis s inp \<noteq> []"
  by (auto simp: flushes_def lookupOk_def tickPushed_def split: sum.splits option.splits)

lemma tick_flush_iff:
  "historyPoints (snd (analysisTick ns semis s inp)) \<noteq> [] \<longleftrightarrow> flushes ns semis s inp"
  using tick_history [of ns semis s inp] tick_pushed_nonempty [of ns semis s inp] by auto

lemma run_snapshots:
  "successively (apart UI_UPDATE_MS) (lastUIUpdateTs s # snapshotTimes (snd (runTicks ns semis s inps)))"
proof (induction inps arbitrary: s)
  case Nil
  then show ?case by (simp add: snapshotTimes_def)
next
  case (Cons inp inps)
  let ?s1 = "fst (analysisTick ns semis s inp)"
  have ih: "successively (apart UI_UPDATE_MS)
              (lastUIUpdateTs ?s1 # snapshotTimes (snd (runTicks ns semis ?s1 inps)))"
    by (rule Cons.IH)
  show ?case
  proof (cases "lookupOk ns semis s inp \<and> UI_UPDATE_MS \<le> now inp - lastUIUpdateTs s")
    case True
    then have "lastUIUpdateTs ?s1 = now inp" by (simp add: tick_lastUI)
    with ih True show ?thesis
      by (simp add: snapshotTimes_def split_beta tick_snapshot apart_def)
  next
    case False
    then have "lastUIUpdateTs ?s1 = lastUIUpdateTs s" by (auto simp: tick_lastUI)
    with ih False show ?thesis
      by (auto simp: snapshotTimes_def split_beta tick_snapshot)
  qed
qed

lemma run_flushes:
  "successively (apart HISTORY_FLUSH_MS) (lastHistoryFlushTs s # flushTimes (snd (runTicks ns semis s inps)))"
proof (induction inps arbitrary: s)
  case Nil
  then show ?case by (simp add: flushTimes_def)
next
  case (Cons inp inps)
  let ?s1 = "fst (analysisTick ns semis s inp)"
  have ih: "successively (apart HISTORY_FLUSH_MS)
              (lastHistoryFlushTs ?s1 # flushTimes (snd (runTicks ns semis ?s1 inps)))"
    by (rule Cons.IH)
  show ?case
  proof (cases "flushes ns semis s inp")
    case True
    then have "lastHistoryFlushTs ?s1 = now inp" by (simp add: tick_history)
    moreover from True have "HISTORY_FLUSH_MS \<le> now inp - lastHistoryFlushTs s"
      by (simp add: flushes_def)
    ultimately show ?thesis using ih True
      by (simp add: flushTimes_def split_beta tick_flush_iff apart_def)
  next
    case False
    then have "lastHistoryFlushTs ?s1 = lastHistoryFlushTs s" by (simp add: tick_history)
    with ih False show ?thesis
      by (simp add: flushTimes_def split_beta tick_flush_iff)
  qed
qed

lemma run_history:
  "traceHistory (snd (runTicks ns semis s inps)) @ historyBuffer (fst (runTicks ns semis s inps)) =
   historyBuffer s @ runPushed ns semis s inps"
proof (induction inps arbitrary: s)
  case Nil
  then show ?case by (simp add: traceHistory_def)
next
  case (Cons inp inps)
  let ?s1 = "fst (analysisTick ns semis s inp)"
  have ih: "traceHistory (snd (runTicks ns semis ?s1 inps)) @
              historyBuffer (fst (runTicks ns semis ?s1 inps)) =
            historyBuffer ?s1 @ runPushed ns semis ?s1 inps"
    by (rule Cons.IH)
  show ?case
  proof (cases "flushes ns semis s inp")
    case True
    with ih show ?thesis by (simp add: traceHistory_def split_beta tick_history)
  next
    case False
    with ih show ?thesis by (simp add: traceHistory_def split_beta tick_history)
  qed
qed

lemmas eval_defs = gapNotes_def sung_def tickAt_def initialState_def analysisTick_def trackTarget_def
  advance.simps transposeNote_def buildAnalysis_def noteHitStep_def uiStep_def flushStep_def
  isOctaveEquivalent_def jrem_def UI_UPDATE_MS_def HISTORY_FLUSH_MS_def Let_def
  tickTargetId_def tickOnPitch_def tickPushed_def traceHits_def traceHistory_def
  snapshotTimes_def flushTimes_def midiToFrequency_def neutralAnalysis_def exampleNotes_def

text \<open>
  C2 as stated fails on a tick without a detected pitch. On \<open>gapNotes\<close> the first tick
  (inside \<open>N1\<close>, on pitch) records the hit of \<open>N1\<close>; the second tick lies in the gap
  between the notes, where the lookup completes with no active target, and no pitch is
  detected: the guard still holds \<open>N1\<close> afterwards.
\<close>

theorem guard_kept_counterexample:
  "trackTarget gapNotes 0 (5 / 2) 0 = Inr (0, None) \<and>
   fst (runTicks gapNotes 0 initialState [tickAt 1000 (3 / 2) (Some (sung 72 523))]) =
     \<lparr>currentNoteIndex = 0, lastHitNoteId = Some ''N1'', lastUIUpdateTs = 1000,
      historyBuffer = [], lastHistoryFlushTs = 1000\<rparr> \<and>
   lastHitNoteId (fst (runTicks gapNotes 0 initialState
      [tickAt 1000 (3 / 2) (Some (sung 72 523)), tickAt 1080 (5 / 2) None])) = Some ''N1''"
  by (simp add: eval_defs)

text \<open>
  C2, as amended. On a tick whose lookup completes with no active target and on which a
  pitch is detected, the note-hit guard is cleared. On a tick without a detected pitch
  the guard is left as it was.
\<close>

theorem guard_reset:
  "(trackTarget ns semis (currentTime inp) (currentNoteIndex s) = Inr (idx, None) \<and>
      pitchResult inp = Some p \<longrightarrow>
        lastHitNoteId (fst (analysisTick ns semis s inp)) = None) \<and>
   (pitchResult inp = None \<longrightarrow>
        lastHitNoteId (fst (analysisTick ns semis s inp)) = lastHitNoteId s)"
proof (intro conjI impI)
  assume "trackTarget ns semis (currentTime inp) (currentNoteIndex s) = Inr (idx, None) \<and>
      pitchResult inp = Some p"
  then show "lastHitNoteId (fst (analysisTick ns semis s inp)) = None"
    by (simp add: tick_pitch noteHitStep_def buildAnalysis_def)
next
  assume none: "pitchResult inp = None"
  show "lastHitNoteId (fst (analysisTick ns semis s inp)) = lastHitNoteId s"
  proof (cases "trackTarget ns semis (currentTime inp) (currentNoteIndex s)")
    case (Inl e)
    then show ?thesis by (simp add: tick_throw)
  next
    case (Inr r)
    obtain idx' tgt where "r = (idx', tgt)" by (cases r)
    with Inr none show ?thesis by (simp add: tick_no_pitch)
  qed
qed

text \<open>Both cases in the gap of \<open>gapNotes\<close>, from a state whose guard holds \<open>N1\<close>.\<close>

theorem guard_reset_witness:
  "lastHitNoteId (fst (analysisTick gapNotes 0
      \<lparr>currentNoteIndex = 0, lastHitNoteId = Some ''N1'', lastUIUpdateTs = 1000,
       historyBuffer = [], lastHistoryFlushTs = 1000\<rparr>
      (tickAt 1080 (5 / 2) (Some (sung 72 523))))) = None \<and>
   lastHitNoteId (fst (analysisTick gapNotes 0
      \<lparr>currentNoteIndex = 0, lastHitNoteId = Some ''N1'', lastUIUpdateTs = 1000,
       historyBuffer = [], lastHistoryFlushTs = 1000\<rparr>
      (tickAt 1080 (5 / 2) None))) = Some ''N1''"
  using guard_reset [of gapNotes 0 "tickAt 1080 (5 / 2) (Some (sung 72 523))"
      "\<lparr>currentNoteIndex = 0, lastHitNoteId = Some ''N1'', lastUIUpdateTs = 1000,
       historyBuffer = [], lastHistoryFlushTs = 1000\<rparr>" 0 "sung 72 523"]
    guard_reset [of gapNotes 0 "tickAt 1080 (5 / 2) None"
      "\<lparr>currentNoteIndex = 0, lastHitNoteId = Some ''N1'', lastUIUpdateTs = 1000,
       historyBuffer = [], lastHistoryFlushTs = 1000\<rparr>" 0 "sung 72 523"]
  by (simp add: gapNotes_def tickAt_def trackTarget_def advance.simps)

text \<open>
  C9. In the trace of any sequence of ticks from any state, successive live-snapshot
  emissions are at least 66 ms apart and successive history flushes are at least 100 ms
  apart on the tick clock. A tick that flushes emits the buffer as it stood, followed by
  the point of this tick, in that order, and leaves the buffer empty; over a whole run
  the flushed points followed by the remaining buffer are the initial buffer followed by
  the points pushed during the run.
\<close>

theorem throttled_channels:
  "successively (apart 66) (snapshotTimes (snd (runTicks ns semis s inps))) \<and>
   successively (apart 100) (flushTimes (snd (runTicks ns semis s inps))) \<and>
   traceHistory (snd (runTicks ns semis s inps)) @ historyBuffer (fst (runTicks ns semis s inps)) =
     historyBuffer s @ runPushed ns semis s inps \<and>
   (historyPoints (snd (analysisTick ns semis st inp)) \<noteq> [] \<longrightarrow>
      historyPoints (snd (analysisTick ns semis st inp)) =
        historyBuffer st @ tickPushed ns semis st inp \<and>
      historyBuffer (fst (analysisTick ns semis st inp)) = [])"
proof -
  have "successively (apart 66) (snapshotTimes (snd (runTicks ns semis s inps)))"
    using run_snapshots [of s ns semis inps]
    by (auto simp: successively_Cons UI_UPDATE_MS_def)
  moreover have "successively (apart 100) (flushTimes (snd (runTicks ns semis s inps)))"
    using run_flushes [of s ns semis inps]
    by (auto simp: successively_Cons HISTORY_FLUSH_MS_def)
  moreover have "historyPoints (snd (analysisTick ns semis st inp)) \<noteq> [] \<longrightarrow>
      historyPoints (snd (analysisTick ns semis st inp)) =
        historyBuffer st @ tickPushed ns semis st inp \<and>
      historyBuffer (fst (analysisTick ns semis st inp)) = []"
    using tick_history [of ns semis st inp] by (simp add: tick_flush_iff)
  ultimately show ?thesis using run_history [of ns semis s inps] by blast
qed

text \<open>
  Three ticks 80 ms apart: every tick publishes a snapshot, the first and the third
  flush, and the third flush emits the points of the second and third tick.
\<close>

theorem throttled_channels_witness:
  "snapshotTimes (snd (runTicks gapNotes 0 initialState
      [tickAt 1000 (3 / 2) (Some (sung 72 523)), tickAt 1080 (158 / 100) (Some (sung 72 523)),
       tickAt 1160 (166 / 100) (Some (sung 72 523))])) = [1000, 1080, 1160] \<and>
   flushTimes (snd (runTicks gapNotes 0 initialState
      [tickAt 1000 (3 / 2) (Some (sung 72 523)), tickAt 1080 (158 / 100) (Some (sung 72 523)),
       tickAt 1160 (166 / 100) (Some (sung 72 523))])) = [1000, 1160] \<and>
   apart 66 1000 1080 \<and> apart 100 1000 1160 \<and>
   traceHistory (snd (runTicks gapNotes 0 initialState
      [tickAt 1000 (3 / 2) (Some (sung 72 523)), tickAt 1080 (158 / 100) (Some (sung 72 523)),
       tickAt 1160 (166 / 100) (Some (sung 72 523))])) =
     [VoiceHistory (3 / 2) 72 True, VoiceHistory (158 / 100) 72 True, VoiceHistory (166 / 100) 72 True] \<and>
   historyPoints (snd (analysisTick gapNotes 0
      \<lparr>currentNoteIndex = 0, lastHitNoteId = Some ''N1'', lastUIUpdateTs = 1080,
       historyBuffer = [VoiceHistory (158 / 100) 72 True], lastHistoryFlushTs = 1000\<rparr>
      (tickAt 1160 (166 / 100) (Some (sung 72 523))))) =
     [VoiceHistory (158 / 100) 72 True, VoiceHistory (166 / 100) 72 True]"
  using throttled_channels [of gapNotes 0 initialState
      "[tickAt 1000 (3 / 2) (Some (sung 72 523)), tickAt 1080 (158 / 100) (Some (sung 72 523)),
       tickAt 1160 (166 / 100) (Some (sung 72 523))]"
      "\<lparr>currentNoteIndex = 0, lastHitNoteId = Some ''N1'', lastUIUpdateTs = 1080,
       historyBuffer = [VoiceHistory (158 / 100) 72 True], lastHistoryFlushTs = 1000\<rparr>"
      "tickAt 1160 (166 / 100) (Some (sung 72 523))"]
  by (simp add: eval_defs apart_def)

lemma tick_same_target:
  assumes "tickTargetId ns semis s inp = Some n"
  shows "noteHits (snd (analysisTick ns semis s inp)) =
           (if tickOnPitch ns semis s inp \<and> n \<noteq> [] \<and> lastHitNoteId s \<noteq> Some n then [n] else []) \<and>
         lastHitNoteId (fst (analysisTick ns semis s inp)) =
           (if tickOnPitch ns semis s inp \<and> n \<noteq> [] \<and> lastHitNoteId s \<noteq> Some n
            then Some n else lastHitNoteId s)"
proof -
  from assms obtain idx tn where
    look: "trackTarget ns semis (currentTime inp) (currentNoteIndex s) = Inr (idx, Some tn)"
    and n: "note_id tn = n"
    by (auto simp: tickTargetId_def split: sum.splits)
  show ?thesis
  proof (cases "pitchResult inp")
    case None
    with look show ?thesis by (simp add: tick_no_pitch tickOnPitch_def)
  next
    case (Some p)
    have "targetNote (buildAnalysis (Some tn) p (now inp)) = Some tn"
      by (simp add: buildAnalysis_def Let_def)
    with look Some n show ?thesis
      by (simp add: tick_pitch tickOnPitch_def noteHitStep_def noteHits_append
          uiStep_def flushStep_def noteHits_map)
  qed
qed

lemma run_same_target:
  "sameTargetRun ns semis n s inps \<Longrightarrow>
   traceHits (snd (runTicks ns semis s inps)) =
     (if someOnPitch ns semis s inps \<and> n \<noteq> [] \<and> lastHitNoteId s \<noteq> Some n then [n] else [])"
proof (induction inps arbitrary: s)
  case Nil
  then show ?case by (simp add: traceHits_def)
next
  case (Cons inp inps)
  let ?s1 = "fst (analysisTick ns semis s inp)"
  from Cons.prems have tgt: "tickTargetId ns semis s inp = Some n"
    and rest: "sameTargetRun ns semis n ?s1 inps" by simp_all
  note step = tick_same_target [OF tgt]
  note ih = Cons.IH [OF rest]
  have unfold_run: "traceHits (snd (runTicks ns semis s (inp # inps))) =
      noteHits (snd (analysisTick ns semis s inp)) @ traceHits (snd (runTicks ns semis ?s1 inps))"
    by (simp add: traceHits_def split_beta)
  show ?case
  proof (cases "tickOnPitch ns semis s inp \<and> n \<noteq> [] \<and> lastHitNoteId s \<noteq> Some n")
    case True
    with step have "noteHits (snd (analysisTick ns semis s inp)) = [n]"
      and "lastHitNoteId ?s1 = Some n" by simp_all
    with ih True show ?thesis unfolding unfold_run by simp
  next
    case False
    with step have "noteHits (snd (analysisTick ns semis s inp)) = []"
      and "lastHitNoteId ?s1 = lastHitNoteId s" by simp_all
    with ih False show ?thesis unfolding unfold_run by auto
  qed
qed

lemma tick_hit_sets_guard:
  "noteHits (snd (analysisTick ns semis s inp)) = [m] \<Longrightarrow>
   lastHitNoteId (fst (analysisTick ns semis s inp)) = Some m"
proof (cases "trackTarget ns semis (currentTime inp) (currentNoteIndex s)")
  case (Inl e)
  assume "noteHits (snd (analysisTick ns semis s inp)) = [m]"
  with Inl show ?thesis by (simp add: tick_throw)
next
  case (Inr r)
  assume hit: "noteHits (snd (analysisTick ns semis s inp)) = [m]"
  obtain idx tgt where r: "r = (idx, tgt)" by (cases r)
  show ?thesis
  proof (cases "pitchResult inp")
    case None
    with Inr r hit show ?thesis by (simp add: tick_no_pitch split: if_splits)
  next
    case (Some p)
    with Inr r hit show ?thesis
      by (auto simp: tick_pitch noteHitStep_def noteHits_append uiStep_def flushStep_def
          noteHits_map split: option.splits if_splits)
  qed
qed

lemma runTicks_append:
  "runTicks ns semis s (xs @ ys) =
     (fst (runTicks ns semis (fst (runTicks ns semis s xs)) ys),
      snd (runTicks ns semis s xs) @ snd (runTicks ns semis (fst (runTicks ns semis s xs)) ys))"
  by (induction xs arbitrary: s) (simp_all add: split_beta)

lemma traceHits_append: "traceHits (xs @ ys) = traceHits xs @ traceHits ys"
  by (simp add: traceHits_def)

lemma tick_guard_only_by_hit:
  assumes "lastHitNoteId (fst (analysisTick ns semis s inp)) = Some k"
  shows "lastHitNoteId s = Some k \<or> noteHits (snd (analysisTick ns semis s inp)) = [k]"
proof (cases "trackTarget ns semis (currentTime inp) (currentNoteIndex s)")
  case (Inl e)
  with assms show ?thesis by (simp add: tick_throw)
next
  case (Inr r)
  obtain idx tgt where r: "r = (idx, tgt)" by (cases r)
  show ?thesis
  proof (cases "pitchResult inp")
    case None
    with Inr r assms show ?thesis by (simp add: tick_no_pitch)
  next
    case (Some p)
    with Inr r assms show ?thesis
      by (auto simp: tick_pitch noteHitStep_def noteHits_append uiStep_def flushStep_def
          noteHits_map split: option.splits if_splits)
  qed
qed

lemma run_guard_only_by_hit:
  "lastHitNoteId (fst (runTicks ns semis s inps)) = Some k \<Longrightarrow>
   lastHitNoteId s = Some k \<or> k \<in> set (traceHits (snd (runTicks ns semis s inps)))"
proof (induction inps arbitrary: s)
  case Nil
  then show ?case by simp
next
  case (Cons inp inps)
  let ?s1 = "fst (analysisTick ns semis s inp)"
  have unfold_run: "traceHits (snd (runTicks ns semis s (inp # inps))) =
      noteHits (snd (analysisTick ns semis s inp)) @ traceHits (snd (runTicks ns semis ?s1 inps))"
    by (simp add: traceHits_def split_beta)
  from Cons.prems have "lastHitNoteId (fst (runTicks ns semis ?s1 inps)) = Some k"
    by (simp add: split_beta)
  from Cons.IH [OF this]
  have "lastHitNoteId ?s1 = Some k \<or> k \<in> set (traceHits (snd (runTicks ns semis ?s1 inps)))" .
  then show ?case
  proof
    assume "lastHitNoteId ?s1 = Some k"
    from tick_guard_only_by_hit [OF this] show ?thesis unfolding unfold_run by auto
  next
    assume "k \<in> set (traceHits (snd (runTicks ns semis ?s1 inps)))"
    then show ?thesis unfolding unfold_run by simp
  qed
qed

lemma run_return:
  assumes guard: "lastHitNoteId s \<noteq> Some n"
    and quiet: "n \<notin> set (traceHits (snd (runTicks ns semis s mid)))"
    and same: "sameTargetRun ns semis n (fst (runTicks ns semis s mid)) ret"
    and on: "someOnPitch ns semis (fst (runTicks ns semis s mid)) ret"
    and id: "n \<noteq> []"
  shows "traceHits (snd (runTicks ns semis s (mid @ ret))) =
           traceHits (snd (runTicks ns semis s mid)) @ [n]"
proof -
  from guard quiet run_guard_only_by_hit [of ns semis s mid n]
  have "lastHitNoteId (fst (runTicks ns semis s mid)) \<noteq> Some n" by blast
  with run_same_target [OF same] on id
  have "traceHits (snd (runTicks ns semis (fst (runTicks ns semis s mid)) ret)) = [n]" by simp
  then show ?thesis by (simp add: runTicks_append traceHits_append)
qed

lemma run_return_after_hit:
  assumes hit: "noteHits (snd (analysisTick ns semis s inp)) = [m]"
    and other: "m \<noteq> n"
    and quiet: "n \<notin> set (traceHits (snd (runTicks ns semis (fst (analysisTick ns semis s inp)) mid)))"
    and same: "sameTargetRun ns semis n (fst (runTicks ns semis s (inp # mid))) ret"
    and on: "someOnPitch ns semis (fst (runTicks ns semis s (inp # mid))) ret"
    and id: "n \<noteq> []"
  shows "traceHits (snd (runTicks ns semis s (inp # mid @ ret))) =
           traceHits (snd (runTicks ns semis s (inp # mid))) @ [n]"
proof -
  let ?s1 = "fst (analysisTick ns semis s inp)"
  have st: "fst (runTicks ns semis s (inp # mid)) = fst (runTicks ns semis ?s1 mid)"
    by (simp add: split_beta)
  from tick_hit_sets_guard [OF hit] other have guard: "lastHitNoteId ?s1 \<noteq> Some n" by simp
  from run_return [OF guard quiet same [unfolded st] on [unfolded st] id]
  have "traceHits (snd (runTicks ns semis ?s1 (mid @ ret))) =
          traceHits (snd (runTicks ns semis ?s1 mid)) @ [n]" .
  then show ?thesis by (simp add: traceHits_def split_beta)
qed

text \<open>
  C3, as amended. In a run of consecutive ticks that all have the active target \<open>n\<close>, at
  most one hit of \<open>n\<close> is emitted; exactly one (and no other hit) if some tick of the run
  is on pitch, the id is non-empty and the guard does not hold \<open>n\<close> when the run starts.
  A tick that emits a hit of \<open>m\<close> leaves the guard holding \<open>m\<close>. After a tick that emits
  a hit of another id \<open>m\<close>, and after any further ticks \<open>mid\<close> that emit no hit of \<open>n\<close>, a
  run \<open>ret\<close> of ticks with the active target \<open>n\<close>, one of them on pitch, adds exactly one
  hit of \<open>n\<close> to the trace. The same holds from any state whose guard does not hold \<open>n\<close>.
\<close>

theorem note_hit_once_per_occupancy:
  "(sameTargetRun ns semis n s inps \<longrightarrow>
      length (filter (\<lambda>m. m = n) (traceHits (snd (runTicks ns semis s inps)))) \<le> 1 \<and>
      (someOnPitch ns semis s inps \<and> n \<noteq> [] \<and> lastHitNoteId s \<noteq> Some n \<longrightarrow>
         traceHits (snd (runTicks ns semis s inps)) = [n])) \<and>
   (noteHits (snd (analysisTick ns semis st inp)) = [m] \<longrightarrow>
      lastHitNoteId (fst (analysisTick ns semis st inp)) = Some m) \<and>
   (noteHits (snd (analysisTick ns semis st inp)) = [m] \<and> m \<noteq> n \<and> n \<noteq> [] \<and>
    n \<notin> set (traceHits (snd (runTicks ns semis (fst (analysisTick ns semis st inp)) mid))) \<and>
    sameTargetRun ns semis n (fst (runTicks ns semis st (inp # mid))) ret \<and>
    someOnPitch ns semis (fst (runTicks ns semis st (inp # mid))) ret \<longrightarrow>
      traceHits (snd (runTicks ns semis st (inp # mid @ ret))) =
        traceHits (snd (runTicks ns semis st (inp # mid))) @ [n]) \<and>
   (lastHitNoteId s \<noteq> Some n \<and> n \<noteq> [] \<and>
    n \<notin> set (traceHits (snd (runTicks ns semis s mid))) \<and>
    sameTargetRun ns semis n (fst (runTicks ns semis s mid)) ret \<and>
    someOnPitch ns semis (fst (runTicks ns semis s mid)) ret \<longrightarrow>
      traceHits (snd (runTicks ns semis s (mid @ ret))) =
        traceHits (snd (runTicks ns semis s mid)) @ [n])"
proof (intro conjI impI)
  assume "sameTargetRun ns semis n s inps"
  from run_same_target [OF this]
  show "length (filter (\<lambda>m. m = n) (traceHits (snd (runTicks ns semis s inps)))) \<le> 1" by simp
next
  assume "sameTargetRun ns semis n s inps"
    and "someOnPitch ns semis s inps \<and> n \<noteq> [] \<and> lastHitNoteId s \<noteq> Some n"
  with run_same_target [of ns semis n s inps]
  show "traceHits (snd (runTicks ns semis s inps)) = [n]" by simp
next
  assume "noteHits (snd (analysisTick ns semis st inp)) = [m]"
  then show "lastHitNoteId (fst (analysisTick ns semis st inp)) = Some m"
    by (rule tick_hit_sets_guard)
next
  assume "noteHits (snd (analysisTick ns semis st inp)) = [m] \<and> m \<noteq> n \<and> n \<noteq> [] \<and>
    n \<notin> set (traceHits (snd (runTicks ns semis (fst (analysisTick ns semis st inp)) mid))) \<and>
    sameTargetRun ns semis n (fst (runTicks ns semis st (inp # mid))) ret \<and>
    someOnPitch ns semis (fst (runTicks ns semis st (inp # mid))) ret"
  then show "traceHits (snd (runTicks ns semis st (inp # mid @ ret))) =
        traceHits (snd (runTicks ns semis st (inp # mid))) @ [n]"
    by (intro run_return_after_hit [of ns semis st inp m n mid ret]) blast+
next
  assume "lastHitNoteId s \<noteq> Some n \<and> n \<noteq> [] \<and>
    n \<notin> set (traceHits (snd (runTicks ns semis s mid))) \<and>
    sameTargetRun ns semis n (fst (runTicks ns semis s mid)) ret \<and>
    someOnPitch ns semis (fst (runTicks ns semis s mid)) ret"
  then show "traceHits (snd (runTicks ns semis s (mid @ ret))) =
        traceHits (snd (runTicks ns semis s mid)) @ [n]"
    by (intro run_return) blast+
qed

text \<open>
  Two on-pitch ticks inside \<open>N1\<close> give one hit. From the state after a hit of \<open>N1\<close>: a
  tick on pitch inside \<open>N2\<close> emits a hit of \<open>N2\<close> and leaves the guard on \<open>N2\<close>; after a
  further tick in the gap, with a pitch detected, the return to \<open>N1\<close> on pitch emits a hit
  of \<open>N1\<close>. And from the initial state a pitched tick in the gap followed by a tick on
  pitch inside \<open>N1\<close> gives one hit. The whole session emits \<open>N1\<close>, \<open>N2\<close>, \<open>N1\<close>.
\<close>

theorem note_hit_once_per_occupancy_witness:
  "sameTargetRun gapNotes 0 ''N1'' initialState
      [tickAt 1000 (3 / 2) (Some (sung 72 523)), tickAt 1080 (158 / 100) (Some (sung 72 523))] \<and>
   traceHits (snd (runTicks gapNotes 0 initialState
      [tickAt 1000 (3 / 2) (Some (sung 72 523)), tickAt 1080 (158 / 100) (Some (sung 72 523))])) = [''N1''] \<and>
   noteHits (snd (analysisTick gapNotes 0
      \<lparr>currentNoteIndex = 0, lastHitNoteId = Some ''N1'', lastUIUpdateTs = 1000,
       historyBuffer = [], lastHistoryFlushTs = 1000\<rparr>
      (tickAt 1080 (7 / 2) (Some (sung 81 880))))) = [''N2''] \<and>
   lastHitNoteId (fst (analysisTick gapNotes 0
      \<lparr>currentNoteIndex = 0, lastHitNoteId = Some ''N1'', lastUIUpdateTs = 1000,
       historyBuffer = [], lastHistoryFlushTs = 1000\<rparr>
      (tickAt 1080 (7 / 2) (Some (sung 81 880))))) = Some ''N2'' \<and>
   traceHits (snd (runTicks gapNotes 0
      \<lparr>currentNoteIndex = 0, lastHitNoteId = Some ''N1'', lastUIUpdateTs = 1000,
       historyBuffer = [], lastHistoryFlushTs = 1000\<rparr>
      (tickAt 1080 (7 / 2) (Some (sung 81 880)) #
       [tickAt 1160 (5 / 2) (Some (sung 72 523))] @
       [tickAt 1240 (3 / 2) (Some (sung 72 523))]))) = [''N2'', ''N1''] \<and>
   traceHits (snd (runTicks gapNotes 0 initialState
      ([tickAt 1000 (5 / 2) (Some (sung 72 523))] @
       [tickAt 1080 (3 / 2) (Some (sung 72 523))]))) = [''N1''] \<and>
   traceHits (snd (runTicks gapNotes 0 initialState
      [tickAt 1000 (3 / 2) (Some (sung 72 523)), tickAt 1080 (7 / 2) (Some (sung 81 880)),
       tickAt 1160 (5 / 2) (Some (sung 72 523)), tickAt 1240 (3 / 2) (Some (sung 72 523))])) =
     [''N1'', ''N2'', ''N1'']"
  using note_hit_once_per_occupancy [where ns = gapNotes and semis = 0 and n = "''N1''"
      and s = initialState
      and inps = "[tickAt 1000 (3 / 2) (Some (sung 72 523)), tickAt 1080 (158 / 100) (Some (sung 72 523))]"
      and st = "\<lparr>currentNoteIndex = 0, lastHitNoteId = Some ''N1'', lastUIUpdateTs = 1000,
       historyBuffer = [], lastHistoryFlushTs = 1000\<rparr>"
      and inp = "tickAt 1080 (7 / 2) (Some (sung 81 880))" and m = "''N2''"
      and mid = "[tickAt 1160 (5 / 2) (Some (sung 72 523))]"
      and ret = "[tickAt 1240 (3 / 2) (Some (sung 72 523))]"]
    note_hit_once_per_occupancy [where ns = gapNotes and semis = 0 and n = "''N1''"
      and s = initialState
      and inps = "[tickAt 1000 (3 / 2) (Some (sung 72 523)), tickAt 1080 (158 / 100) (Some (sung 72 523))]"
      and st = "\<lparr>currentNoteIndex = 0, lastHitNoteId = Some ''N1'', lastUIUpdateTs = 1000,
       historyBuffer = [], lastHistoryFlushTs = 1000\<rparr>"
      and inp = "tickAt 1080 (7 / 2) (Some (sung 81 880))" and m = "''N2''"
      and mid = "[tickAt 1000 (5 / 2) (Some (sung 72 523))]"
      and ret = "[tickAt 1080 (3 / 2) (Some (sung 72 523))]"]
  by (simp add: eval_defs)

text \<open>A pitch 300 cents above the target A4 of \<open>gapNotes\<close>.\<close>

lemma quarter_octave_in_range:
  "underflowLimit < 440 * 2 powr (1 / 4) / 440" "440 * 2 powr (1 / 4) / 440 < overflowLimit"
proof -
  have lo: "(1::real) \<le> 2 powr (1 / 4)" by (rule ge_one_powr_ge_zero) simp_all
  have "(2::real) powr (1 / 4) \<le> 2 powr 1" by (rule powr_mono) simp_all
  then have hi: "(2::real) powr (1 / 4) \<le> 2" by simp
  have "(2::real) \<le> 2 ^ 1023" using two_power_step(2) one_le_power [of "2::real" 1022] by simp
  with hi overflowLimit_bounds(1) show "440 * 2 powr (1 / 4) / 440 < overflowLimit" by simp
  from lo underflowLimit_bounds(2) show "underflowLimit < 440 * 2 powr (1 / 4) / 440" by simp
qed

lemma off_pitch_dev:
  "centsToNearestOctave (Fin (midiToFrequency 69)) (Fin (440 * 2 powr (1 / 4))) = Some (Fin 300)"
proof -
  have f: "midiToFrequency 69 = 440" by (simp add: midiToFrequency_def)
  have "log 2 (2 powr (1 / 4)) = 1 / 4" by (simp only: log_powr_cancel)
  then have l: "1200 * log 2 (440 * 2 powr (1 / 4) / 440) = 300" by simp
  have "centsToNearestOctave (Fin 440) (Fin (440 * 2 powr (1 / 4))) =
        wrapCents (Fin (1200 * log 2 (440 * 2 powr (1 / 4) / 440)))"
    using quarter_octave_in_range by (intro cents_in_range) simp_all
  then show ?thesis unfolding f l by (simp add: wrapCents_inside)
qed

text \<open>
  C3 as stated fails when the other note is not hit: the targets of the three ticks are
  \<open>N1\<close>, \<open>N2\<close>, \<open>N1\<close>, the first and third tick are on pitch, the second detects a
  pitch 300 cents off \<open>N2\<close>. The guard keeps \<open>N1\<close> throughout, and the return to \<open>N1\<close>
  emits no second hit.
\<close>

theorem note_hit_return_counterexample:
  "map (\<lambda>(s, i). tickTargetId gapNotes 0 s i)
     [(initialState, tickAt 1000 (3 / 2) (Some (sung 72 523))),
      (fst (runTicks gapNotes 0 initialState [tickAt 1000 (3 / 2) (Some (sung 72 523))]),
       tickAt 1080 (7 / 2) (Some (sung 72 (440 * 2 powr (1 / 4))))),
      (fst (runTicks gapNotes 0 initialState [tickAt 1000 (3 / 2) (Some (sung 72 523)),
         tickAt 1080 (7 / 2) (Some (sung 72 (440 * 2 powr (1 / 4))))]),
       tickAt 1160 (3 / 2) (Some (sung 72 523)))]
     = [Some ''N1'', Some ''N2'', Some ''N1''] \<and>
   tickOnPitch gapNotes 0
     (fst (runTicks gapNotes 0 initialState [tickAt 1000 (3 / 2) (Some (sung 72 523)),
         tickAt 1080 (7 / 2) (Some (sung 72 (440 * 2 powr (1 / 4))))]))
     (tickAt 1160 (3 / 2) (Some (sung 72 523))) \<and>
   traceHits (snd (runTicks gapNotes 0 initialState
      [tickAt 1000 (3 / 2) (Some (sung 72 523)),
       tickAt 1080 (7 / 2) (Some (sung 72 (440 * 2 powr (1 / 4)))),
       tickAt 1160 (3 / 2) (Some (sung 72 523))])) = [''N1'']"
  using off_pitch_dev
  by (simp add: eval_defs)

lemma buildAnalysis_returned:
  assumes "centsToNearestOctave (Fin (frequency tn)) (Fin (p_frequency p)) = Some (Fin c)"
  shows "deviation (buildAnalysis (Some tn) p ts) = c"
    and "isOnPitch (buildAnalysis (Some tn) p ts) \<longleftrightarrow>
           \<bar>c\<bar> \<le> 50 \<or> jrem (pitch tn) 12 = jrem (p_pitch p) 12"
  using assms by (simp_all add: buildAnalysis_def Let_def isOctaveEquivalent_def)

lemma tick_snapshot_is_analysis:
  assumes ev: "AnalysisUpdate a \<in> set (snd (analysisTick ns semis s inp))"
    and tgt: "targetNote a = Some tn"
  shows "\<exists>p. pitchResult inp = Some p \<and> a = buildAnalysis (Some tn) p (now inp)"
proof (cases "trackTarget ns semis (currentTime inp) (currentNoteIndex s)")
  case (Inl e)
  with ev show ?thesis by (simp add: tick_throw)
next
  case (Inr r)
  obtain idx t where r: "r = (idx, t)" by (cases r)
  show ?thesis
  proof (cases "pitchResult inp")
    case None
    with Inr r ev tgt show ?thesis
      by (auto simp: tick_no_pitch neutralAnalysis_def split: if_splits)
  next
    case (Some p)
    with Inr r ev have a: "a = buildAnalysis t p (now inp)"
      by (auto simp: tick_pitch noteHitStep_def uiStep_def flushStep_def
          split: option.splits if_splits)
    with tgt have "t = Some tn" by (cases t) (simp_all add: buildAnalysis_def Let_def)
    with a Some show ?thesis by simp
  qed
qed

text \<open>
  C7. With an active target and a detected pitch, the deviation of the tick is the value
  that \<open>centsToNearestOctave\<close> returns for the frequency of the target and the detected
  frequency, and the on-pitch decision is true if and only if that value is at most 50
  in absolute value or the remainders by 12 of the target's and the detected MIDI pitch
  are equal; for non-negative pitches that is equality modulo 12. The call returns for
  every detected frequency within the detector's limits of 80 and 2000 Hz and every target
  frequency between \<open>2^-64\<close> and \<open>2^64\<close> Hz. The same holds of every snapshot with a
  target that a tick publishes. \<open>octaveAdjusted\<close> is the octave
  equivalence of the two pitches, and \<open>isOctaveEquivalent\<close> compares the remainders.
\<close>

theorem onPitch_decision:
  "(centsToNearestOctave (Fin (frequency tn)) (Fin (p_frequency p)) = Some (Fin c) \<longrightarrow>
      deviation (buildAnalysis (Some tn) p ts) = c \<and>
      (isOnPitch (buildAnalysis (Some tn) p ts) \<longleftrightarrow>
         \<bar>c\<bar> \<le> 50 \<or> isOctaveEquivalent (pitch tn) (p_pitch p)) \<and>
      (0 \<le> pitch tn \<and> 0 \<le> p_pitch p \<longrightarrow>
         (isOnPitch (buildAnalysis (Some tn) p ts) \<longleftrightarrow>
            \<bar>c\<bar> \<le> 50 \<or> pitch tn mod 12 = p_pitch p mod 12))) \<and>
   (80 \<le> p_frequency p \<and> p_frequency p \<le> 2000 \<and>
    1 / 2 ^ 64 \<le> frequency tn \<and> frequency tn \<le> 2 ^ 64 \<longrightarrow>
      centsToNearestOctave (Fin (frequency tn)) (Fin (p_frequency p)) =
        Some (Fin (deviation (buildAnalysis (Some tn) p ts)))) \<and>
   (octaveAdjusted (buildAnalysis (Some tn) p ts) \<longleftrightarrow> isOctaveEquivalent (pitch tn) (p_pitch p)) \<and>
   (AnalysisUpdate a \<in> set (snd (analysisTick ns semis s inp)) \<and>
    targetNote a = Some tn' \<and> pitchResult inp = Some q \<and>
    centsToNearestOctave (Fin (frequency tn')) (Fin (p_frequency q)) = Some (Fin c') \<longrightarrow>
      deviation a = c' \<and>
      (isOnPitch a \<longleftrightarrow> \<bar>c'\<bar> \<le> 50 \<or> isOctaveEquivalent (pitch tn') (p_pitch q))) \<and>
   (isOctaveEquivalent m1 m2 \<longleftrightarrow> jrem m1 12 = jrem m2 12) \<and>
   (0 \<le> m1 \<and> 0 \<le> m2 \<longrightarrow> (isOctaveEquivalent m1 m2 \<longleftrightarrow> m1 mod 12 = m2 mod 12))"
proof (intro conjI impI)
  assume r: "centsToNearestOctave (Fin (frequency tn)) (Fin (p_frequency p)) = Some (Fin c)"
  from buildAnalysis_returned(1) [OF r] show "deviation (buildAnalysis (Some tn) p ts) = c" .
  from buildAnalysis_returned(2) [OF r]
  show on: "isOnPitch (buildAnalysis (Some tn) p ts) \<longleftrightarrow>
         \<bar>c\<bar> \<le> 50 \<or> isOctaveEquivalent (pitch tn) (p_pitch p)"
    by (simp add: isOctaveEquivalent_def)
  assume "0 \<le> pitch tn \<and> 0 \<le> p_pitch p"
  with on show "isOnPitch (buildAnalysis (Some tn) p ts) \<longleftrightarrow>
            \<bar>c\<bar> \<le> 50 \<or> pitch tn mod 12 = p_pitch p mod 12"
    by (simp add: isOctaveEquivalent_def jrem_nonneg)
next
  assume "80 \<le> p_frequency p \<and> p_frequency p \<le> 2000 \<and>
    1 / 2 ^ 64 \<le> frequency tn \<and> frequency tn \<le> 2 ^ 64"
  then obtain c0 where
    r: "centsToNearestOctave (Fin (frequency tn)) (Fin (p_frequency p)) = Some (Fin c0)"
    using deviation_returns [of "p_frequency p" "frequency tn"] by blast
  from buildAnalysis_returned(1) [OF r] r
  show "centsToNearestOctave (Fin (frequency tn)) (Fin (p_frequency p)) =
        Some (Fin (deviation (buildAnalysis (Some tn) p ts)))" by simp
next
  show "octaveAdjusted (buildAnalysis (Some tn) p ts) \<longleftrightarrow> isOctaveEquivalent (pitch tn) (p_pitch p)"
    by (simp add: buildAnalysis_def Let_def)
next
  assume h: "AnalysisUpdate a \<in> set (snd (analysisTick ns semis s inp)) \<and>
    targetNote a = Some tn' \<and> pitchResult inp = Some q \<and>
    centsToNearestOctave (Fin (frequency tn')) (Fin (p_frequency q)) = Some (Fin c')"
  then have a: "a = buildAnalysis (Some tn') q (now inp)"
    using tick_snapshot_is_analysis [of a ns semis s inp tn'] by auto
  from h have r: "centsToNearestOctave (Fin (frequency tn')) (Fin (p_frequency q)) = Some (Fin c')"
    by simp
  from buildAnalysis_returned(1) [OF r] a show "deviation a = c'" by simp
  from buildAnalysis_returned(2) [OF r] a
  show "isOnPitch a \<longleftrightarrow> \<bar>c'\<bar> \<le> 50 \<or> isOctaveEquivalent (pitch tn') (p_pitch q)"
    by (simp add: isOctaveEquivalent_def)
next
  show "isOctaveEquivalent m1 m2 \<longleftrightarrow> jrem m1 12 = jrem m2 12"
    by (simp add: isOctaveEquivalent_def)
next
  assume "0 \<le> m1 \<and> 0 \<le> m2"
  then show "isOctaveEquivalent m1 m2 \<longleftrightarrow> m1 mod 12 = m2 mod 12"
    by (simp add: isOctaveEquivalent_def jrem_nonneg)
qed

text \<open>
  Against the target A4 of \<open>gapNotes\<close> (MIDI 69, 440 Hz): a detection of 440 Hz labelled
  with MIDI 70 deviates by 0 cents and is on pitch without octave equivalence; a
  detection 300 cents higher labelled with MIDI 72 is not on pitch; the same frequency
  labelled with MIDI 81, an octave above the target, is on pitch. The tick inside the
  note publishes the first of these records. MIDI 60 and 72 are octave-equivalent, 60 and
  61 are not.
\<close>

theorem onPitch_decision_witness:
  "deviation (buildAnalysis (Some (transposeNote (gapNotes ! 1) 0)) (sung 70 440) 1000) = 0 \<and>
   isOnPitch (buildAnalysis (Some (transposeNote (gapNotes ! 1) 0)) (sung 70 440) 1000) \<and>
   \<not> octaveAdjusted (buildAnalysis (Some (transposeNote (gapNotes ! 1) 0)) (sung 70 440) 1000) \<and>
   deviation (buildAnalysis (Some (transposeNote (gapNotes ! 1) 0))
      (sung 72 (440 * 2 powr (1 / 4))) 1000) = 300 \<and>
   \<not> isOnPitch (buildAnalysis (Some (transposeNote (gapNotes ! 1) 0))
      (sung 72 (440 * 2 powr (1 / 4))) 1000) \<and>
   isOnPitch (buildAnalysis (Some (transposeNote (gapNotes ! 1) 0))
      (sung 81 (440 * 2 powr (1 / 4))) 1000) \<and>
   snd (analysisTick gapNotes 0 initialState (tickAt 1000 (7 / 2) (Some (sung 70 440)))) =
     [NoteHit ''N2'',
      AnalysisUpdate (buildAnalysis (Some (transposeNote (gapNotes ! 1) 0)) (sung 70 440) 1000),
      HistoryUpdate (VoiceHistory (7 / 2) 70 True)] \<and>
   isOctaveEquivalent 60 72 \<and> \<not> isOctaveEquivalent 60 61"
proof -
  let ?tn = "transposeNote (gapNotes ! 1) 0"
  have f: "frequency ?tn = 440" "pitch ?tn = 69"
    by (simp_all add: transposeNote_def gapNotes_def midiToFrequency_def Let_def)
  have unison: "centsToNearestOctave (Fin (frequency ?tn)) (Fin (p_frequency (sung 70 440))) = Some (Fin 0)"
    unfolding f by (simp add: sung_def cents_unison)
  have off72: "centsToNearestOctave (Fin (frequency ?tn))
      (Fin (p_frequency (sung 72 (440 * 2 powr (1 / 4))))) = Some (Fin 300)"
    using off_pitch_dev unfolding f by (simp add: sung_def midiToFrequency_def)
  have off81: "centsToNearestOctave (Fin (frequency ?tn))
      (Fin (p_frequency (sung 81 (440 * 2 powr (1 / 4))))) = Some (Fin 300)"
    using off_pitch_dev unfolding f by (simp add: sung_def midiToFrequency_def)
  have tick: "snd (analysisTick gapNotes 0 initialState (tickAt 1000 (7 / 2) (Some (sung 70 440)))) =
     [NoteHit ''N2'', AnalysisUpdate (buildAnalysis (Some ?tn) (sung 70 440) 1000),
      HistoryUpdate (VoiceHistory (7 / 2) 70 True)]"
    using unison unfolding f
    by (simp add: gapNotes_def sung_def tickAt_def initialState_def analysisTick_def trackTarget_def
        advance.simps transposeNote_def buildAnalysis_def noteHitStep_def uiStep_def flushStep_def
        isOctaveEquivalent_def jrem_def UI_UPDATE_MS_def HISTORY_FLUSH_MS_def Let_def
        midiToFrequency_def)
  have p: "p_pitch (sung 70 440) = 70" "p_pitch (sung 72 (440 * 2 powr (1 / 4))) = 72"
    "p_pitch (sung 81 (440 * 2 powr (1 / 4))) = 81"
    by (simp_all add: sung_def)
  from onPitch_decision [where tn = ?tn and p = "sung 70 440" and c = 0 and ts = 1000
      and a = "buildAnalysis (Some ?tn) (sung 70 440) 1000" and ns = gapNotes and semis = 0
      and s = initialState and inp = "tickAt 1000 (7 / 2) (Some (sung 70 440))"
      and tn' = ?tn and q = "sung 70 440" and c' = 0 and ?m1.0 = 60 and ?m2.0 = 72]
    unison tick
  have one: "deviation (buildAnalysis (Some ?tn) (sung 70 440) 1000) = 0"
    "isOnPitch (buildAnalysis (Some ?tn) (sung 70 440) 1000)"
    "\<not> octaveAdjusted (buildAnalysis (Some ?tn) (sung 70 440) 1000)"
    "isOctaveEquivalent 60 72"
    unfolding f p by (simp_all add: isOctaveEquivalent_def jrem_def)
  from onPitch_decision [where tn = ?tn and p = "sung 72 (440 * 2 powr (1 / 4))" and c = 300
      and ts = 1000 and ?m1.0 = 60 and ?m2.0 = 61] off72
  have two: "deviation (buildAnalysis (Some ?tn) (sung 72 (440 * 2 powr (1 / 4))) 1000) = 300"
    "\<not> isOnPitch (buildAnalysis (Some ?tn) (sung 72 (440 * 2 powr (1 / 4))) 1000)"
    "\<not> isOctaveEquivalent 60 61"
    unfolding f p by (simp_all add: isOctaveEquivalent_def jrem_def)
  from onPitch_decision [where tn = ?tn and p = "sung 81 (440 * 2 powr (1 / 4))" and c = 300
      and ts = 1000] off81
  have three: "isOnPitch (buildAnalysis (Some ?tn) (sung 81 (440 * 2 powr (1 / 4))) 1000)"
    unfolding f p by (simp add: isOctaveEquivalent_def jrem_def)
  from one two three tick show ?thesis by blast
qed

section \<open>Properties of the threshold search\<close>

lemma rd_Fin: "0 \<le> i \<Longrightarrow> i < int (length c) \<Longrightarrow> rd (map Fin c) i = Fin (c ! nat i)"
  by (simp add: rd_def)

lemma thresholdLoop_end: "M < tau \<Longrightarrow> thresholdLoop yin M tau ym = (- 1, ym)"
  by (subst thresholdLoop.simps) simp

lemma thresholdLoop_break:
  "tau \<le> M \<Longrightarrow> jlt (rd yin tau) (Fin yinThreshold) \<Longrightarrow> jle (rd yin tau) ym \<Longrightarrow>
   tau + 1 \<le> M \<Longrightarrow> jle (rd yin tau) (rd yin (tau + 1)) \<Longrightarrow>
   thresholdLoop yin M tau ym = (tau, rd yin tau)"
  by (subst thresholdLoop.simps) simp

lemma thresholdLoop_next:
  "tau \<le> M \<Longrightarrow>
   \<not> (jlt (rd yin tau) (Fin yinThreshold) \<and> jle (rd yin tau) ym \<and>
      tau + 1 \<le> M \<and> jle (rd yin tau) (rd yin (tau + 1))) \<Longrightarrow>
   thresholdLoop yin M tau ym =
     thresholdLoop yin M (tau + 1) (if jlt (rd yin tau) ym then rd yin tau else ym)"
  by (subst thresholdLoop.simps) auto

lemma globalMinLoop_end: "M < tau \<Longrightarrow> globalMinLoop yin M tau acc = acc"
  by (subst globalMinLoop.simps) simp

lemma globalMinLoop_next:
  "tau \<le> M \<Longrightarrow> globalMinLoop yin M tau acc =
     globalMinLoop yin M (tau + 1) (if jlt (rd yin tau) (fst acc) then (rd yin tau, tau) else acc)"
  by (subst globalMinLoop.simps) simp

text \<open>Before the first accepted lag the values do not go below the accepted one.\<close>

lemma before_first_accept:
  assumes acc: "accepts (map Fin c) t0"
    and none: "\<forall>tau. start \<le> tau \<and> tau < t0 \<longrightarrow> \<not> accepts (map Fin c) tau"
    and rng: "0 \<le> start" "t0 < int (length c)"
  shows "start \<le> t0 - int k \<Longrightarrow> c ! nat t0 \<le> c ! nat (t0 - int k)"
proof (induction k)
  case 0
  then show ?case by simp
next
  case (Suc k)
  let ?j = "t0 - int (Suc k)"
  have j: "start \<le> ?j" "?j < t0" "?j + 1 = t0 - int k" using Suc.prems by simp_all
  have ih: "c ! nat t0 \<le> c ! nat (?j + 1)" using Suc.IH j by simp
  have inr: "0 \<le> ?j" "?j < int (length c)" "0 \<le> ?j + 1" "?j + 1 < int (length c)"
    using j rng by simp_all
  have t0r: "0 \<le> t0" using j rng by simp
  show ?case
  proof (rule ccontr)
    assume "\<not> c ! nat t0 \<le> c ! nat ?j"
    then have lt: "c ! nat ?j < c ! nat t0" by simp
    from acc have "c ! nat t0 < yinThreshold"
      using t0r rng by (simp add: accepts_def rd_Fin)
    with lt have thr: "c ! nat ?j < yinThreshold" by simp
    from none j have "\<not> accepts (map Fin c) ?j" by blast
    with thr have "\<not> c ! nat ?j \<le> c ! nat (?j + 1)"
      using inr by (simp add: accepts_def rd_Fin)
    with ih lt show False by simp
  qed
qed

lemma before_first_accept_at:
  assumes "accepts (map Fin c) t0"
    and "\<forall>tau. start \<le> tau \<and> tau < t0 \<longrightarrow> \<not> accepts (map Fin c) tau"
    and "0 \<le> start" "t0 < int (length c)" "start \<le> tau" "tau \<le> t0"
  shows "c ! nat t0 \<le> c ! nat tau"
proof -
  have "tau = t0 - int (nat (t0 - tau))" using assms by simp
  moreover have "start \<le> t0 - int (nat (t0 - tau))" using assms by simp
  ultimately show ?thesis
    using before_first_accept [OF assms(1-4), of "nat (t0 - tau)"] by simp
qed

text \<open>The loop of step 3 reaches the first accepted lag below the end of the range and stops there.\<close>

lemma thresholdLoop_finds:
  assumes acc: "accepts (map Fin c) t0"
    and below: "t0 + 1 \<le> M" "M < int (length c)"
  shows "0 \<le> tau \<Longrightarrow> tau \<le> t0 \<Longrightarrow> n = nat (t0 - tau) \<Longrightarrow>
         \<forall>i. tau \<le> i \<and> i < t0 \<longrightarrow> \<not> accepts (map Fin c) i \<Longrightarrow>
         \<forall>i. tau \<le> i \<and> i \<le> t0 \<longrightarrow> c ! nat t0 \<le> c ! nat i \<Longrightarrow>
         c ! nat t0 \<le> y \<Longrightarrow>
         thresholdLoop (map Fin c) M tau (Fin y) = (t0, Fin (c ! nat t0))"
proof (induction n arbitrary: tau y)
  case 0
  then have eq: "tau = t0" by simp
  have r0: "rd (map Fin c) t0 = Fin (c ! nat t0)" "rd (map Fin c) (t0 + 1) = Fin (c ! nat (t0 + 1))"
    using 0 eq below by (simp_all add: rd_Fin)
  from acc r0 0 below show ?case
    unfolding eq by (subst thresholdLoop_break) (simp_all add: accepts_def)
next
  case (Suc n)
  then have lt: "tau < t0" by simp
  have inr: "0 \<le> tau" "tau < int (length c)" "0 \<le> tau + 1" "tau + 1 < int (length c)"
    using Suc.prems lt below by simp_all
  have r: "rd (map Fin c) tau = Fin (c ! nat tau)" using inr by (simp add: rd_Fin)
  have nacc: "\<not> accepts (map Fin c) tau" using Suc.prems lt by simp
  have le: "c ! nat t0 \<le> c ! nat tau" using Suc.prems lt by simp
  have step: "thresholdLoop (map Fin c) M tau (Fin y) =
      thresholdLoop (map Fin c) M (tau + 1) (if jlt (rd (map Fin c) tau) (Fin y) then rd (map Fin c) tau else Fin y)"
    using nacc lt below by (intro thresholdLoop_next) (auto simp: accepts_def)
  have "thresholdLoop (map Fin c) M (tau + 1) (Fin (if c ! nat tau < y then c ! nat tau else y)) =
          (t0, Fin (c ! nat t0))"
  proof (rule Suc.IH)
    show "0 \<le> tau + 1" using inr by simp
    show "tau + 1 \<le> t0" using lt by simp
    show "n = nat (t0 - (tau + 1))" using Suc.prems by simp
    show "\<forall>i. tau + 1 \<le> i \<and> i < t0 \<longrightarrow> \<not> accepts (map Fin c) i" using Suc.prems by simp
    show "\<forall>i. tau + 1 \<le> i \<and> i \<le> t0 \<longrightarrow> c ! nat t0 \<le> c ! nat i" using Suc.prems by simp
    show "c ! nat t0 \<le> (if c ! nat tau < y then c ! nat tau else y)" using le Suc.prems by simp
  qed
  then show ?case unfolding step r by (simp split: if_splits)
qed

text \<open>Without an accepted lag below the end of the range the loop runs to the end.\<close>

lemma thresholdLoop_none:
  "n = nat (M + 1 - tau) \<Longrightarrow>
   \<forall>i. tau \<le> i \<and> i < M \<longrightarrow> \<not> accepts yin i \<Longrightarrow>
   fst (thresholdLoop yin M tau ym) = - 1"
proof (induction n arbitrary: tau ym)
  case 0
  then have "M < tau" by simp
  then show ?case by (simp add: thresholdLoop_end)
next
  case (Suc n)
  then have le: "tau \<le> M" by simp
  have "\<not> (jlt (rd yin tau) (Fin yinThreshold) \<and> jle (rd yin tau) ym \<and>
      tau + 1 \<le> M \<and> jle (rd yin tau) (rd yin (tau + 1)))"
    using Suc.prems(2) by (auto simp: accepts_def)
  with le have "thresholdLoop yin M tau ym =
     thresholdLoop yin M (tau + 1) (if jlt (rd yin tau) ym then rd yin tau else ym)"
    by (rule thresholdLoop_next)
  moreover have "fst (thresholdLoop yin M (tau + 1) (if jlt (rd yin tau) ym then rd yin tau else ym)) = - 1"
    using Suc.prems by (intro Suc.IH) simp_all
  ultimately show ?case by simp
qed

lemma globalMinLoop_inv:
  assumes rng: "0 \<le> start" "M < int (length c)"
  shows "n = nat (M + 1 - tau) \<Longrightarrow> start \<le> tau \<Longrightarrow> tau \<le> M + 1 \<Longrightarrow> firstMin c start tau m \<Longrightarrow>
         \<exists>m'. globalMinLoop (map Fin c) M tau (Fin (c ! nat m), m) = (Fin (c ! nat m'), m') \<and>
               firstMin c start (M + 1) m'"
proof (induction n arbitrary: tau m)
  case 0
  then have "tau = M + 1" by simp
  with 0 show ?case by (auto simp: globalMinLoop_end)
next
  case (Suc n)
  then have le: "tau \<le> M" by simp
  have r: "rd (map Fin c) tau = Fin (c ! nat tau)"
    using le Suc.prems rng by (simp add: rd_Fin)
  have step: "globalMinLoop (map Fin c) M tau (Fin (c ! nat m), m) =
     globalMinLoop (map Fin c) M (tau + 1)
       (if c ! nat tau < c ! nat m then (Fin (c ! nat tau), tau) else (Fin (c ! nat m), m))"
    using le by (subst globalMinLoop_next) (simp_all add: r)
  show ?case
  proof (cases "c ! nat tau < c ! nat m")
    case True
    have "firstMin c start (tau + 1) tau"
      unfolding firstMin_def
    proof (intro conjI allI impI)
      show "start \<le> tau" "tau < tau + 1" using Suc.prems by simp_all
    next
      fix i assume i: "start \<le> i \<and> i < tau + 1"
      show "c ! nat tau \<le> c ! nat i"
      proof (cases "i = tau")
        case True then show ?thesis by simp
      next
        case False
        with i have "start \<le> i \<and> i < tau" by simp
        with Suc.prems(4) have "c ! nat m \<le> c ! nat i" by (simp add: firstMin_def)
        with True show ?thesis by simp
      qed
    next
      fix i assume i: "start \<le> i \<and> i < tau"
      with Suc.prems(4) have "c ! nat m \<le> c ! nat i" by (simp add: firstMin_def)
      with True show "c ! nat tau < c ! nat i" by simp
    qed
    then have "\<exists>m'. globalMinLoop (map Fin c) M (tau + 1) (Fin (c ! nat tau), tau) = (Fin (c ! nat m'), m') \<and>
               firstMin c start (M + 1) m'"
      using Suc.prems le by (intro Suc.IH) simp_all
    with True show ?thesis unfolding step by simp
  next
    case False
    have "firstMin c start (tau + 1) m"
      unfolding firstMin_def
    proof (intro conjI allI impI)
      show "start \<le> m" "m < tau + 1" using Suc.prems(4) by (simp_all add: firstMin_def)
    next
      fix i assume i: "start \<le> i \<and> i < tau + 1"
      show "c ! nat m \<le> c ! nat i"
      proof (cases "i = tau")
        case True with False show ?thesis by simp
      next
        case False
        with i have "start \<le> i \<and> i < tau" by simp
        with Suc.prems(4) show ?thesis by (simp add: firstMin_def)
      qed
    next
      fix i assume i: "start \<le> i \<and> i < m"
      with Suc.prems(4) show "c ! nat m < c ! nat i" by (simp add: firstMin_def)
    qed
    then have "\<exists>m'. globalMinLoop (map Fin c) M (tau + 1) (Fin (c ! nat m), m) = (Fin (c ! nat m'), m') \<and>
               firstMin c start (M + 1) m'"
      using Suc.prems le by (intro Suc.IH) simp_all
    with False show ?thesis unfolding step by simp
  qed
qed

lemma globalMinLoop_first:
  assumes "0 \<le> start" "M < int (length c)" "start \<le> M"
  shows "\<exists>m. globalMinLoop (map Fin c) M start (PosInf, - 1) = (Fin (c ! nat m), m) \<and>
              firstMin c start (M + 1) m"
proof -
  have r: "rd (map Fin c) start = Fin (c ! nat start)" using assms by (simp add: rd_Fin)
  have step: "globalMinLoop (map Fin c) M start (PosInf, - 1) =
              globalMinLoop (map Fin c) M (start + 1) (Fin (c ! nat start), start)"
    using assms(3) by (subst globalMinLoop_next) (simp_all add: r)
  have "i = start" if "start \<le> i" "i < start + 1" for i using that by simp
  then have "firstMin c start (start + 1) start" by (auto simp: firstMin_def)
  then show ?thesis
    unfolding step using assms by (intro globalMinLoop_inv [where n = "nat (M + 1 - (start + 1))"]) simp_all
qed

lemma thresholdSearch_fallback:
  assumes "fst (thresholdLoop yin M (max 2 minTau) (Fin 1)) = - 1"
    and "globalMinLoop yin M (max 2 minTau) (PosInf, - 1) = (Fin v, m)"
  shows "thresholdSearch yin minTau M = (m, Fin v)"
  using assms by (simp add: thresholdSearch_def Let_def)

lemma search_accepts:
  assumes rng: "M < int (length c)"
    and t0: "max 2 minTau \<le> t0" "t0 \<le> M"
    and acc: "accepts (map Fin c) t0"
    and none: "\<forall>i. max 2 minTau \<le> i \<and> i < t0 \<longrightarrow> \<not> accepts (map Fin c) i"
  shows "thresholdSearch (map Fin c) minTau M = (t0, Fin (c ! nat t0))"
proof -
  let ?start = "max 2 minTau"
  have s0: "0 \<le> ?start" by simp
  have t0len: "t0 < int (length c)" using t0 rng by simp
  have mono: "c ! nat t0 \<le> c ! nat i" if "?start \<le> i" "i \<le> t0" for i
    using before_first_accept_at [OF acc none s0 t0len that] .
  have thr: "c ! nat t0 < yinThreshold"
    using acc t0 t0len by (simp add: accepts_def rd_Fin)
  show ?thesis
  proof (cases "t0 + 1 \<le> M")
    case True
    have "thresholdLoop (map Fin c) M ?start (Fin 1) = (t0, Fin (c ! nat t0))"
    proof (rule thresholdLoop_finds [OF acc True rng s0 t0(1) refl])
      show "\<forall>i. ?start \<le> i \<and> i < t0 \<longrightarrow> \<not> accepts (map Fin c) i" using none by simp
      show "\<forall>i. ?start \<le> i \<and> i \<le> t0 \<longrightarrow> c ! nat t0 \<le> c ! nat i" using mono by simp
      show "c ! nat t0 \<le> 1" using thr by (simp add: yinThreshold_def)
    qed
    moreover have "t0 \<noteq> - 1" using t0 by simp
    ultimately show ?thesis by (simp add: thresholdSearch_def Let_def)
  next
    case False
    with t0 have eq: "t0 = M" by simp
    have nf: "fst (thresholdLoop (map Fin c) M ?start (Fin 1)) = - 1"
      using none eq by (intro thresholdLoop_none [OF refl]) simp
    obtain m where
      g: "globalMinLoop (map Fin c) M ?start (PosInf, - 1) = (Fin (c ! nat m), m)"
      and fm: "firstMin c ?start (M + 1) m"
      using globalMinLoop_first [OF s0 rng] t0 eq by blast
    have res: "thresholdSearch (map Fin c) minTau M = (m, Fin (c ! nat m))"
      using nf g by (rule thresholdSearch_fallback)
    have "m = M"
    proof (rule ccontr)
      assume "m \<noteq> M"
      with fm have m: "?start \<le> m" "m < M" by (simp_all add: firstMin_def)
      from fm t0 eq have "c ! nat m \<le> c ! nat M" by (simp add: firstMin_def)
      with thr eq have "c ! nat m < yinThreshold" by simp
      moreover from fm m have "c ! nat m \<le> c ! nat (m + 1)" by (simp add: firstMin_def)
      ultimately have "accepts (map Fin c) m"
        using m rng by (simp add: accepts_def rd_Fin)
      with none m eq show False by simp
    qed
    with res eq show ?thesis by simp
  qed
qed

lemma search_fallback:
  assumes rng: "M < int (length c)"
    and ne: "max 2 minTau \<le> M"
    and none: "\<forall>i. max 2 minTau \<le> i \<and> i < M \<longrightarrow> \<not> accepts (map Fin c) i"
  shows "\<exists>m. thresholdSearch (map Fin c) minTau M = (m, Fin (c ! nat m)) \<and>
             firstMin c (max 2 minTau) (M + 1) m"
proof -
  let ?start = "max 2 minTau"
  have s0: "0 \<le> ?start" by simp
  have nf: "fst (thresholdLoop (map Fin c) M ?start (Fin 1)) = - 1"
    using none by (intro thresholdLoop_none [OF refl]) simp
  obtain m where
    g: "globalMinLoop (map Fin c) M ?start (PosInf, - 1) = (Fin (c ! nat m), m)"
    and fm: "firstMin c ?start (M + 1) m"
    using globalMinLoop_first [OF s0 rng ne] by blast
  have "thresholdSearch (map Fin c) minTau M = (m, Fin (c ! nat m))"
    using nf g by (rule thresholdSearch_fallback)
  with fm show ?thesis by blast
qed

lemma search_empty: "M < max 2 minTau \<Longrightarrow> thresholdSearch yin minTau M = (- 1, Fin 1)"
  by (simp add: thresholdSearch_def Let_def thresholdLoop_end globalMinLoop_end)

text \<open>
  C5. On every array of (finite) normalised difference values and every search range
  inside the array, with \<open>start = max(2, minTau)\<close>: if some lag of the range passes the
  test \<open>CMNDF[tau] < 0.15\<close> and \<open>CMNDF[tau] <= CMNDF[tau + 1]\<close>, the search selects the
  first such lag; if no lag of the range passes it (in particular if none is below the
  threshold), the search selects the first lag with the least value over the range; on
  an empty range it selects none (\<open>-1\<close>). In each case the recorded minimum is the value
  at the selected lag.
\<close>

theorem threshold_search_selects:
  "M < int (length c) \<longrightarrow>
   (max 2 minTau \<le> t0 \<and> t0 \<le> M \<and> accepts (map Fin c) t0 \<and>
    (\<forall>i. max 2 minTau \<le> i \<and> i < t0 \<longrightarrow> \<not> accepts (map Fin c) i) \<longrightarrow>
      thresholdSearch (map Fin c) minTau M = (t0, Fin (c ! nat t0))) \<and>
   (max 2 minTau \<le> M \<and> (\<forall>i. max 2 minTau \<le> i \<and> i \<le> M \<longrightarrow> \<not> accepts (map Fin c) i) \<longrightarrow>
      (\<exists>m. thresholdSearch (map Fin c) minTau M = (m, Fin (c ! nat m)) \<and>
           firstMin c (max 2 minTau) (M + 1) m)) \<and>
   (M < max 2 minTau \<longrightarrow> thresholdSearch (map Fin c) minTau M = (- 1, Fin 1))"
proof (intro impI conjI)
  assume rng: "M < int (length c)"
  { assume "max 2 minTau \<le> t0 \<and> t0 \<le> M \<and> accepts (map Fin c) t0 \<and>
      (\<forall>i. max 2 minTau \<le> i \<and> i < t0 \<longrightarrow> \<not> accepts (map Fin c) i)"
    then show "thresholdSearch (map Fin c) minTau M = (t0, Fin (c ! nat t0))"
      using search_accepts [OF rng] by blast }
  { assume "max 2 minTau \<le> M \<and> (\<forall>i. max 2 minTau \<le> i \<and> i \<le> M \<longrightarrow> \<not> accepts (map Fin c) i)"
    then show "\<exists>m. thresholdSearch (map Fin c) minTau M = (m, Fin (c ! nat m)) \<and>
           firstMin c (max 2 minTau) (M + 1) m"
      using search_fallback [OF rng, of minTau] by simp }
  { assume "M < max 2 minTau"
    then show "thresholdSearch (map Fin c) minTau M = (- 1, Fin 1)" by (rule search_empty) }
qed

text \<open>
  On \<open>cmndfDip\<close> the lag 2 is below the threshold but not a local minimum and the lag 3
  is selected; on \<open>cmndfFlat\<close> nothing is below the threshold and the least value is at
  lag 3; a range that starts beyond its end is empty.
\<close>

theorem threshold_search_selects_witness:
  "accepts (map Fin cmndfDip) 3 \<and> \<not> accepts (map Fin cmndfDip) 2 \<and>
   thresholdSearch (map Fin cmndfDip) 0 4 = (3, Fin (1 / 20)) \<and>
   \<not> accepts (map Fin cmndfFlat) 2 \<and> \<not> accepts (map Fin cmndfFlat) 3 \<and>
   \<not> accepts (map Fin cmndfFlat) 4 \<and>
   thresholdSearch (map Fin cmndfFlat) 2 4 = (3, Fin (3 / 10)) \<and>
   firstMin cmndfFlat 2 5 3 \<and>
   thresholdSearch (map Fin cmndfFlat) 7 4 = (- 1, Fin 1)"
proof -
  have a3: "accepts (map Fin cmndfDip) 3" and a2: "\<not> accepts (map Fin cmndfDip) 2"
    by (simp_all add: accepts_def cmndfDip_def rd_def yinThreshold_def)
  have only2: "i = 2" if "max 2 0 \<le> i \<and> i < 3" for i :: int using that by simp
  have none: "\<forall>i. max 2 0 \<le> i \<and> i < 3 \<longrightarrow> \<not> accepts (map Fin cmndfDip) i"
    using a2 only2 by blast
  have rng: "(4::int) < int (length cmndfDip)" "(4::int) < int (length cmndfFlat)"
    by (simp_all add: cmndfDip_def cmndfFlat_def)
  have bounds: "max 2 0 \<le> (3::int)" "(3::int) \<le> 4" "max 2 2 \<le> (4::int)" "(4::int) < max 2 7"
    by simp_all
  have "thresholdSearch (map Fin cmndfDip) 0 4 = (3, Fin (cmndfDip ! nat 3))"
    using threshold_search_selects [of 4 cmndfDip 0 3] rng(1) bounds(1,2) a3 none by blast
  then have dip: "thresholdSearch (map Fin cmndfDip) 0 4 = (3, Fin (1 / 20))"
    by (simp add: cmndfDip_def)
  have flat: "\<not> accepts (map Fin cmndfFlat) i" for i
    by (simp add: accepts_def cmndfFlat_def rd_def yinThreshold_def nth_Cons')
  then have "\<forall>i. max 2 2 \<le> i \<and> i \<le> 4 \<longrightarrow> \<not> accepts (map Fin cmndfFlat) i" by blast
  with threshold_search_selects [of 4 cmndfFlat 2 3] rng(2) bounds(3)
  obtain m where m: "thresholdSearch (map Fin cmndfFlat) 2 4 = (m, Fin (cmndfFlat ! nat m))"
    "firstMin cmndfFlat (max 2 2) (4 + 1) m"
    by blast
  have "thresholdSearch (map Fin cmndfFlat) 2 4 = (3, Fin (3 / 10))"
    by (simp add: thresholdSearch_def thresholdLoop.simps globalMinLoop.simps rd_def
        yinThreshold_def cmndfFlat_def)
  with m have fl: "thresholdSearch (map Fin cmndfFlat) 2 4 = (3, Fin (3 / 10))"
    "firstMin cmndfFlat 2 5 3" by simp_all
  have empty: "thresholdSearch (map Fin cmndfFlat) 7 4 = (- 1, Fin 1)"
    using threshold_search_selects [of 4 cmndfFlat 7 3] rng(2) bounds(4) by blast
  from a3 a2 dip flat fl empty show ?thesis by simp
qed

section \<open>Properties of the detector\<close>

text \<open>The stages of the estimator on the example window.\<close>

lemma example_difference: "differenceFunction exampleWindow (yinBuffer exampleDetector) 3 = [Fin 0, Fin 12, Fin 0, Fin 4]"
  by (simp add: differenceFunction_def differenceAt_def exampleDetector_def exampleWindow_def rd_def jsub_def upto.simps)

lemma example_cmnd: "cmnd [Fin 0, Fin 12, Fin 0, Fin 4] 3 = [Fin 1, Fin 1, Fin 0, Fin (3 / 4)]"
  by (simp add: cmnd_def cmndStep_def rd_def jor_def upto.simps)

lemma example_search: "thresholdSearch [Fin 1, Fin 1, Fin 0, Fin (3 / 4)] 2 3 = (2, Fin 0)"
  by (simp add: thresholdSearch_def thresholdLoop.simps globalMinLoop.simps rd_def yinThreshold_def)

lemma example_parabolic: "parabolic [Fin 1, Fin 1, Fin 0, Fin (3 / 4)] 3 2 = Fin (29 / 14)"
  by (simp add: parabolic_def rd_def jsub_def)

lemma example_subharmonic: "checkAndMaybeReplace [Fin 1, Fin 1, Fin 0, Fin (3 / 4)] 3 (Fin (29 / 14)) f 2 m = f"
  "checkAndMaybeReplace [Fin 1, Fin 1, Fin 0, Fin (3 / 4)] 3 (Fin (29 / 14)) f 3 m = f"
  by (simp_all add: checkAndMaybeReplace_def)

lemma example_yin: "yinDetectFrequency exampleWindow (yinBuffer exampleDetector) 2 3 400 =
   \<lparr>freq = Fin (5600 / 29), yinAfter = [Fin 1, Fin 1, Fin 0, Fin (3 / 4)], lastYinMin = Fin 0\<rparr>"
proof -
  have len: "int (length exampleWindow) - 1 = 3" by (simp add: exampleWindow_def)
  show ?thesis by (simp add: yinDetectFrequency_def Let_def len example_difference example_cmnd example_search example_parabolic example_subharmonic)
qed

lemma example_rms: "computeRMS exampleWindow = Fin 1"
  by (simp add: computeRMS_def exampleWindow_def)

lemma example_estimate: "estimatedFrequency exampleDetector exampleWindow = Fin (5600 / 29)"
proof -
  have d: "sampleRate exampleDetector = 400" "timeBufferSize exampleDetector = 4" by (simp_all add: exampleDetector_def)
  show ?thesis by (simp add: estimatedFrequency_def Let_def d minFreq_def maxFreq_def example_yin)
qed

lemma example_estimate_empty_range: "estimatedFrequency (exampleDetector\<lparr>sampleRate := 44100\<rparr>) exampleWindow = NaN"
proof -
  have d: "timeBufferSize exampleDetector = 4" by (simp add: exampleDetector_def)
  have len: "int (length exampleWindow) - 1 = 3" by (simp add: exampleWindow_def)
  show ?thesis
    by (simp add: estimatedFrequency_def Let_def d minFreq_def maxFreq_def yinDetectFrequency_def
        len thresholdSearch_def thresholdLoop.simps globalMinLoop.simps)
qed

lemma sum_squares_zero:
  "\<forall>v \<in> set samples. v = Fin 0 \<Longrightarrow>
   fold (\<lambda>v sum. jadd sum (jmul v v)) samples (Fin 0) = Fin 0"
  by (induction samples) simp_all

lemma rms_zero_window:
  assumes "\<forall>v \<in> set samples. v = Fin 0"
  shows "\<not> isFinite (computeRMS samples) \<or> jlt (computeRMS samples) (Fin vadRmsThreshold)"
proof (cases "samples = []")
  case True
  then show ?thesis by (simp add: computeRMS_def)
next
  case False
  then have "computeRMS samples = Fin 0"
    by (simp add: computeRMS_def sum_squares_zero [OF assms])
  then show ?thesis by (simp add: vadRmsThreshold_def)
qed

lemma detectPitch_rejects_window:
  "\<not> isFinite (computeRMS samples) \<or> jlt (computeRMS samples) (Fin vadRmsThreshold) \<Longrightarrow>
   detectPitch d samples ts = (None, d)"
  by (auto simp: detectPitch_def Let_def)

lemma detectPitch_rejects_frequency:
  assumes "isInitialized d"
    and "isFinite (computeRMS samples)" "\<not> jlt (computeRMS samples) (Fin vadRmsThreshold)"
    and "\<not> isFinite (estimatedFrequency d samples) \<or>
         jlt (estimatedFrequency d samples) (Fin minFreq) \<or>
         jlt (Fin maxFreq) (estimatedFrequency d samples)"
  shows "fst (detectPitch d samples ts) = None"
proof (cases "estimatedFrequency d samples")
  case (Fin f)
  with assms(4) have "f < minFreq \<or> maxFreq < f" by simp
  with Fin assms(1-3) show ?thesis
    by (auto simp: detectPitch_def estimatedFrequency_def Let_def)
qed (use assms(1-3) in \<open>auto simp: detectPitch_def estimatedFrequency_def Let_def\<close>)

lemma detectPitch_accepts:
  assumes "isInitialized d"
    and "isFinite (computeRMS samples)" "\<not> jlt (computeRMS samples) (Fin vadRmsThreshold)"
    and "isFinite (estimatedFrequency d samples)"
    and "\<not> jlt (estimatedFrequency d samples) (Fin minFreq)"
    and "\<not> jlt (Fin maxFreq) (estimatedFrequency d samples)"
  shows "\<exists>r. fst (detectPitch d samples ts) = Some r \<and>
             Fin (p_frequency r) = estimatedFrequency d samples \<and>
             minFreq \<le> p_frequency r \<and> p_frequency r \<le> maxFreq \<and>
             p_pitch r = frequencyToMidi (p_frequency r) \<and>
             noteName r = getMidiNoteName (p_pitch r) \<and>
             noteNameOnly r = getMidiNoteNameOnly (p_pitch r) \<and>
             timestamp r = ts"
proof (cases "estimatedFrequency d samples")
  case (Fin f)
  with assms(5,6) have "\<not> (f < minFreq \<or> maxFreq < f)" by simp
  with Fin assms(1-3) show ?thesis
    by (auto simp: detectPitch_def estimatedFrequency_def Let_def)
qed (use assms(4) in simp_all)

text \<open>
  C4. For an initialised detector: \<open>detectPitch\<close> returns null whenever the RMS of the
  window is not finite or below 0.01, in particular for every all-zero window; it returns
  null whenever the RMS passes but the estimated frequency is not finite or outside
  [80, 2000]; and otherwise it returns a result whose frequency is the estimate, whose
  pitch is that frequency converted to MIDI, whose names are those of that pitch and
  whose timestamp is the current time.
\<close>

theorem detectPitch_gates:
  "isInitialized d \<longrightarrow>
     (\<not> isFinite (computeRMS samples) \<or> jlt (computeRMS samples) (Fin (1 / 100)) \<longrightarrow>
        fst (detectPitch d samples ts) = None) \<and>
     ((\<forall>v \<in> set samples. v = Fin 0) \<longrightarrow> fst (detectPitch d samples ts) = None) \<and>
     (isFinite (computeRMS samples) \<and> \<not> jlt (computeRMS samples) (Fin (1 / 100)) \<and>
      (\<not> isFinite (estimatedFrequency d samples) \<or>
       jlt (estimatedFrequency d samples) (Fin 80) \<or>
       jlt (Fin 2000) (estimatedFrequency d samples)) \<longrightarrow>
        fst (detectPitch d samples ts) = None) \<and>
     (isFinite (computeRMS samples) \<and> \<not> jlt (computeRMS samples) (Fin (1 / 100)) \<and>
      isFinite (estimatedFrequency d samples) \<and>
      \<not> jlt (estimatedFrequency d samples) (Fin 80) \<and>
      \<not> jlt (Fin 2000) (estimatedFrequency d samples) \<longrightarrow>
        (\<exists>r. fst (detectPitch d samples ts) = Some r \<and>
             Fin (p_frequency r) = estimatedFrequency d samples \<and>
             80 \<le> p_frequency r \<and> p_frequency r \<le> 2000 \<and>
             p_pitch r = frequencyToMidi (p_frequency r) \<and>
             noteName r = getMidiNoteName (p_pitch r) \<and>
             noteNameOnly r = getMidiNoteNameOnly (p_pitch r) \<and>
             timestamp r = ts))"
proof (intro impI conjI)
  assume init: "isInitialized d"
  { assume "\<not> isFinite (computeRMS samples) \<or> jlt (computeRMS samples) (Fin (1 / 100))"
    then show "fst (detectPitch d samples ts) = None"
      using detectPitch_rejects_window [of samples d ts] by (simp add: vadRmsThreshold_def) }
  { assume "\<forall>v \<in> set samples. v = Fin 0"
    then show "fst (detectPitch d samples ts) = None"
      using detectPitch_rejects_window [OF rms_zero_window, of samples d ts] by simp }
  { assume "isFinite (computeRMS samples) \<and> \<not> jlt (computeRMS samples) (Fin (1 / 100)) \<and>
      (\<not> isFinite (estimatedFrequency d samples) \<or>
       jlt (estimatedFrequency d samples) (Fin 80) \<or>
       jlt (Fin 2000) (estimatedFrequency d samples))"
    then show "fst (detectPitch d samples ts) = None"
      using detectPitch_rejects_frequency [OF init, of samples ts]
      by (simp add: vadRmsThreshold_def minFreq_def maxFreq_def) }
  { assume "isFinite (computeRMS samples) \<and> \<not> jlt (computeRMS samples) (Fin (1 / 100)) \<and>
      isFinite (estimatedFrequency d samples) \<and>
      \<not> jlt (estimatedFrequency d samples) (Fin 80) \<and>
      \<not> jlt (Fin 2000) (estimatedFrequency d samples)"
    then show "\<exists>r. fst (detectPitch d samples ts) = Some r \<and>
             Fin (p_frequency r) = estimatedFrequency d samples \<and>
             80 \<le> p_frequency r \<and> p_frequency r \<le> 2000 \<and>
             p_pitch r = frequencyToMidi (p_frequency r) \<and>
             noteName r = getMidiNoteName (p_pitch r) \<and>
             noteNameOnly r = getMidiNoteNameOnly (p_pitch r) \<and>
             timestamp r = ts"
      using detectPitch_accepts [OF init, of samples ts]
      by (simp add: vadRmsThreshold_def minFreq_def maxFreq_def) }
qed

text \<open>
  The all-zero window is rejected; the example window has RMS 1; at 44100 Hz its search
  range is empty, the estimate is \<open>NaN\<close> and the result null; at 400 Hz the estimate
  is 5600/29 Hz (about 193 Hz) and a result is returned.
\<close>

theorem detectPitch_gates_witness:
  "fst (detectPitch exampleDetector [Fin 0, Fin 0, Fin 0, Fin 0] 1000) = None \<and>
   computeRMS exampleWindow = Fin 1 \<and>
   estimatedFrequency (exampleDetector\<lparr>sampleRate := 44100\<rparr>) exampleWindow = NaN \<and>
   fst (detectPitch (exampleDetector\<lparr>sampleRate := 44100\<rparr>) exampleWindow 1000) = None \<and>
   estimatedFrequency exampleDetector exampleWindow = Fin (5600 / 29) \<and>
   (\<exists>r. fst (detectPitch exampleDetector exampleWindow 1000) = Some r \<and> p_frequency r = 5600 / 29 \<and>
        p_pitch r = frequencyToMidi (p_frequency r) \<and> timestamp r = 1000)"
proof -
  have init: "isInitialized exampleDetector" "isInitialized (exampleDetector\<lparr>sampleRate := 44100\<rparr>)"
    by (simp_all add: exampleDetector_def)
  from detectPitch_gates [of exampleDetector "[Fin 0, Fin 0, Fin 0, Fin 0]" 1000] init
  have "fst (detectPitch exampleDetector [Fin 0, Fin 0, Fin 0, Fin 0] 1000) = None" by simp
  moreover from detectPitch_gates [of "exampleDetector\<lparr>sampleRate := 44100\<rparr>" exampleWindow 1000] init
  have "fst (detectPitch (exampleDetector\<lparr>sampleRate := 44100\<rparr>) exampleWindow 1000) = None"
    by (simp add: example_rms example_estimate_empty_range)
  moreover from detectPitch_gates [of exampleDetector exampleWindow 1000] init
  have "\<exists>r. fst (detectPitch exampleDetector exampleWindow 1000) = Some r \<and> p_frequency r = 5600 / 29 \<and>
        p_pitch r = frequencyToMidi (p_frequency r) \<and> timestamp r = 1000"
    by (simp add: example_rms example_estimate) blast
  ultimately show ?thesis by (simp add: example_rms example_estimate example_estimate_empty_range)
qed

end
